(* ===== verification/Prelude.thy ===== *)
theory Prelude
  imports Main "HOL-Library.Word" "HOL-Library.AList" "HOL-Library.Signed_Division"
begin

section \<open>Statements, outcomes and shared automation\<close>

text \<open>
  What every other theory uses.  A C++ function of the library is an \<open>action\<close>: it takes the
  state of the process and either returns a value (\<open>Done\<close>) or leaves through something that is
  not a return (\<open>Stop\<close>): \<open>exit\<close>, undefined behaviour, a non-local jump.  The combinators below
  are the statement forms the sources use: sequencing, \<open>if\<close>, reading the state in an
  expression.  The theorem collections drive the evaluation of actions in the proofs.
\<close>

named_theorems act_simps \<open>evaluation of the statement combinators\<close>
named_theorems frame_simps \<open>what an update of the process state leaves alone\<close>

datatype ('e, 's, 'a) outcome = Done 'a 's | Stop 'e 's

type_synonym ('e, 's, 'a) action = "'s \<Rightarrow> ('e, 's, 'a) outcome"

text \<open>\<open>return x;\<close>\<close>

definition ret :: "'a \<Rightarrow> ('e, 's, 'a) action" where
  "ret x = (\<lambda>s. Done x s)"

text \<open>Leave without returning.\<close>

definition leave :: "'e \<Rightarrow> ('e, 's, 'a) action" where
  "leave e = (\<lambda>s. Stop e s)"

text \<open>Run \<open>m\<close> and hand its value to \<open>k\<close>.\<close>

definition bnd :: "('e, 's, 'a) action \<Rightarrow> ('a \<Rightarrow> ('e, 's, 'b) action) \<Rightarrow> ('e, 's, 'b) action" where
  "bnd m k = (\<lambda>s. case m s of Done x t \<Rightarrow> k x t | Stop e t \<Rightarrow> Stop e t)"

text \<open>Evaluate expressions in the current state.\<close>

definition reads :: "('s \<Rightarrow> ('e, 's, 'a) action) \<Rightarrow> ('e, 's, 'a) action" where
  "reads f = (\<lambda>s. f s s)"

text \<open>\<open>if (b) m else n\<close>\<close>

definition cond :: "('s \<Rightarrow> bool) \<Rightarrow> ('e, 's, 'a) action \<Rightarrow> ('e, 's, 'a) action \<Rightarrow> ('e, 's, 'a) action"
  where "cond b m n = (\<lambda>s. if b s then m s else n s)"

text \<open>An assignment.\<close>

definition modify :: "('s \<Rightarrow> 's) \<Rightarrow> ('e, 's, unit) action" where
  "modify f = (\<lambda>s. Done () (f s))"

text \<open>\<open>{ a1; a2; ...; return k; }\<close>\<close>

primrec stmts :: "('e, 's, unit) action list \<Rightarrow> ('e, 's, 'a) action \<Rightarrow> ('e, 's, 'a) action" where
  "stmts [] k = k"
| "stmts (a # as) k = bnd a (\<lambda>_. stmts as k)"

lemma ret_apply [act_simps]: "ret x s = Done x s"
  by (simp add: ret_def)

lemma leave_apply [act_simps]: "leave e s = Stop e s"
  by (simp add: leave_def)

lemma bnd_apply [act_simps]:
  "bnd m k s = (case m s of Done x t \<Rightarrow> k x t | Stop e t \<Rightarrow> Stop e t)"
  by (simp add: bnd_def)

lemma reads_apply [act_simps]: "reads f s = f s s"
  by (simp add: reads_def)

lemma cond_apply [act_simps]: "cond b m n s = (if b s then m s else n s)"
  by (simp add: cond_def)

lemma modify_apply [act_simps]: "modify f s = Done () (f s)"
  by (simp add: modify_def)

declare stmts.simps [act_simps]

text \<open>Sequencing is associative and \<open>ret\<close> is neutral, so nesting of blocks does not matter.\<close>

lemma bnd_assoc: "bnd (bnd m k) l = bnd m (\<lambda>x. bnd (k x) l)"
  by (rule ext) (simp add: act_simps split: outcome.splits)

lemma bnd_ret_left: "bnd (ret x) k = k x"
  by (rule ext) (simp add: act_simps)

lemma bnd_ret_right: "bnd m ret = m"
  by (rule ext) (simp add: act_simps split: outcome.splits)

lemma stmts_append: "stmts (as @ bs) k = stmts as (stmts bs k)"
  by (induction as) simp_all

text \<open>Step over statements whose effect is known.\<close>

lemma bnd_Done: "m s = Done x t \<Longrightarrow> bnd m k s = k x t"
  by (simp add: act_simps)

lemma bnd_Stop: "m s = Stop e t \<Longrightarrow> bnd m k s = Stop e t"
  by (simp add: act_simps)

lemma stmts_step:
  "stmts (a # as) k s = (case a s of Done u t \<Rightarrow> stmts as k t | Stop e t \<Rightarrow> Stop e t)"
  by (simp add: act_simps)

lemma stmts_Done: "a s = Done u t \<Longrightarrow> stmts (a # as) k s = stmts as k t"
  by (simp add: act_simps)

lemma stmts_Stop: "a s = Stop e t \<Longrightarrow> stmts (a # as) k s = Stop e t"
  by (simp add: act_simps)

subsection \<open>Lists\<close>

lemma butlast_append_last_filter [simp]:
  "filter (\<lambda>y. y \<noteq> x) (xs @ [x]) = filter (\<lambda>y. y \<noteq> x) xs"
  by simp

lemma filter_neq_idem: "x \<notin> set xs \<Longrightarrow> filter (\<lambda>y. y \<noteq> x) xs = xs"
  by (induction xs) auto

lemma distinct_map_fst_unique:
  "distinct (map fst al) \<Longrightarrow> (k, v) \<in> set al \<Longrightarrow> (k, w) \<in> set al \<Longrightarrow> v = w"
  by (metis Some_eq_map_of_iff option.inject)

subsection \<open>Decimal numerals, as \<open>operator<<\<close> prints an \<open>int\<close>\<close>

fun show_nat :: "nat \<Rightarrow> string" where
  "show_nat n =
     (if n < 10 then [char_of (48 + n)] else show_nat (n div 10) @ [char_of (48 + n mod 10)])"

declare show_nat.simps [simp del]

definition show_int :: "int \<Rightarrow> string" where
  "show_int i = (if i < 0 then ''-'' @ show_nat (nat (- i)) else show_nat (nat i))"

end
