(* ===== verification/Containers.thy ===== *)
theory Containers
  imports Prelude
begin

section \<open>The standard containers the scheduler keeps its state in\<close>

text \<open>
  \<open>std::unordered_map<int, T>\<close> is an association list without repeated keys, in the order in
  which the container would be iterated; \<open>std::queue<int>\<close> is a list, front first.  The standard
  leaves the iteration order of an \<open>unordered_map\<close> open, so no theorem of the development may
  depend on it: the transition relation of the process lets the lists be permuted at any moment.

  The two locales are the contracts the scheduler relies on.  Its proofs use the facts proved in
  them, through the interpretations at the end of the theory.
\<close>

subsection \<open>\<open>std::unordered_map\<close>\<close>

type_synonym 'v umap = "(int \<times> 'v) list"

definition um_find :: "('k \<times> 'v) list \<Rightarrow> 'k \<Rightarrow> 'v option" where
  "um_find m k = map_of m k"

definition um_put :: "'k \<Rightarrow> 'v \<Rightarrow> ('k \<times> 'v) list \<Rightarrow> ('k \<times> 'v) list" where
  "um_put k v m = AList.update k v m"

definition um_erase :: "'k \<Rightarrow> ('k \<times> 'v) list \<Rightarrow> ('k \<times> 'v) list" where
  "um_erase k m = AList.delete k m"

definition um_count :: "('k \<times> 'v) list \<Rightarrow> 'k \<Rightarrow> nat" where
  "um_count m k = (case um_find m k of None \<Rightarrow> 0 | Some _ \<Rightarrow> 1)"

definition um_keys :: "('k \<times> 'v) list \<Rightarrow> 'k set" where
  "um_keys m = set (map fst m)"

definition um_ok :: "('k \<times> 'v) list \<Rightarrow> bool" where
  "um_ok m \<longleftrightarrow> distinct (map fst m)"

locale map_contract =
  fixes find :: "'m \<Rightarrow> 'k \<Rightarrow> 'v option"
    and put :: "'k \<Rightarrow> 'v \<Rightarrow> 'm \<Rightarrow> 'm"
    and erase :: "'k \<Rightarrow> 'm \<Rightarrow> 'm"
    and keys :: "'m \<Rightarrow> 'k set"
    and ok :: "'m \<Rightarrow> bool"
  assumes find_put: "find (put k v m) = (find m)(k \<mapsto> v)"
    and find_erase: "find (erase k m) = (find m)(k := None)"
    and keys_find: "k \<in> keys m \<longleftrightarrow> find m k \<noteq> None"
    and finite_keys: "finite (keys m)"
    and ok_put: "ok m \<Longrightarrow> ok (put k v m)"
    and ok_erase: "ok m \<Longrightarrow> ok (erase k m)"
begin

lemma keys_put: "keys (put k v m) = insert k (keys m)"
  by (auto simp: keys_find find_put split: if_splits)

lemma keys_erase: "keys (erase k m) = keys m - {k}"
  by (auto simp: keys_find find_erase split: if_splits)

lemma find_put_same: "find (put k v m) k = Some v"
  by (simp add: find_put)

lemma find_put_other: "k' \<noteq> k \<Longrightarrow> find (put k v m) k' = find m k'"
  by (simp add: find_put)

lemma find_erase_same: "find (erase k m) k = None"
  by (simp add: find_erase)

lemma find_erase_other: "k' \<noteq> k \<Longrightarrow> find (erase k m) k' = find m k'"
  by (simp add: find_erase)

lemma find_put_erase: "find (put k v (erase k m)) = find (put k v m)"
  by (simp add: find_put find_erase)

lemma find_erase_put_fresh: "find m k = None \<Longrightarrow> find (erase k (put k v m)) = find m"
  by (rule ext) (simp add: find_put find_erase)

lemma find_put_idle: "find m k = Some v \<Longrightarrow> find (put k v m) = find m"
  by (rule ext) (simp add: find_put)

lemma not_in_keys: "k \<notin> keys m \<longleftrightarrow> find m k = None"
  by (simp add: keys_find)

end

interpretation um: map_contract um_find um_put um_erase um_keys um_ok
  by unfold_locales
    (auto simp: um_find_def um_put_def um_erase_def um_keys_def um_ok_def AList.update_conv'
      AList.delete_conv' AList.distinct_update AList.distinct_delete map_of_eq_None_iff
      fun_eq_iff)

lemma um_count_zero [simp]: "um_count m k = 0 \<longleftrightarrow> k \<notin> um_keys m"
  by (simp add: um_count_def um.keys_find split: option.splits)

lemma um_count_pos [simp]: "0 < um_count m k \<longleftrightarrow> k \<in> um_keys m"
  by (simp add: um_count_def um.keys_find split: option.splits)

lemma um_find_SomeD: "um_find m k = Some v \<Longrightarrow> k \<in> um_keys m"
  by (simp add: um.keys_find)

lemma um_find_set: "um_ok m \<Longrightarrow> um_find m k = Some v \<longleftrightarrow> (k, v) \<in> set m"
  by (simp add: um_ok_def um_find_def)

lemma um_size_keys: "um_ok m \<Longrightarrow> length m = card (um_keys m)"
  unfolding um_ok_def um_keys_def by (metis distinct_card length_map)

text \<open>Rehashing permutes the entries and changes no lookup.\<close>

lemma um_find_perm:
  assumes "um_ok m" and "set m' = set m" and "length m' = length m"
  shows "um_ok m'" and "um_find m' = um_find m"
proof -
  have "card (set m') = length m'"
    using assms by (metis distinct_card distinct_map um_ok_def)
  then have "distinct m'" by (rule card_distinct)
  then show ok: "um_ok m'"
    using assms by (simp add: um_ok_def distinct_map)
  show "um_find m' = um_find m"
  proof
    fix k
    have "um_find m' k = Some v \<longleftrightarrow> um_find m k = Some v" for v
      using um_find_set [OF ok] um_find_set [OF assms(1)] assms(2) by simp
    then show "um_find m' k = um_find m k"
      by (metis not_None_eq)
  qed
qed

lemmas um_simps [simp] =
  um.keys_put um.keys_erase um.find_put um.find_erase um.ok_put um.ok_erase um.finite_keys

subsection \<open>\<open>std::queue\<close>\<close>

definition q_push :: "'a \<Rightarrow> 'a list \<Rightarrow> 'a list" where
  "q_push x q = q @ [x]"

definition q_front :: "'a list \<Rightarrow> 'a" where
  "q_front q = hd q"

definition q_pop :: "'a list \<Rightarrow> 'a list" where
  "q_pop q = tl q"

definition q_empty :: "'a list \<Rightarrow> bool" where
  "q_empty q \<longleftrightarrow> q = []"

locale queue_contract =
  fixes push :: "'a \<Rightarrow> 'q \<Rightarrow> 'q"
    and front :: "'q \<Rightarrow> 'a"
    and pop :: "'q \<Rightarrow> 'q"
    and empty :: "'q \<Rightarrow> bool"
    and contents :: "'q \<Rightarrow> 'a list"
  assumes contents_push: "contents (push x q) = contents q @ [x]"
    and contents_pop: "\<not> empty q \<Longrightarrow> contents q = front q # contents (pop q)"
    and empty_contents: "empty q \<longleftrightarrow> contents q = []"
begin

text \<open>First in, first out: an element waits for exactly the elements before it.\<close>

lemma push_not_empty: "\<not> empty (push x q)"
  by (simp add: empty_contents contents_push)

lemma front_in: "\<not> empty q \<Longrightarrow> front q \<in> set (contents q)"
  by (simp add: contents_pop)

lemma pop_shifts:
  assumes "Suc k < length (contents q)"
  shows "contents (pop (push x q)) ! k = contents q ! Suc k"
proof -
  have "contents (push x q) = front (push x q) # contents (pop (push x q))"
    by (rule contents_pop) (rule push_not_empty)
  then have "contents (pop (push x q)) ! k = (contents q @ [x]) ! Suc k"
    by (metis contents_push nth_Cons_Suc)
  then show ?thesis using assms by (simp add: nth_append)
qed

lemma front_push: "\<not> empty q \<Longrightarrow> front (push x q) = contents q ! 0"
  by (metis append_Cons contents_pop contents_push list.inject nth_Cons_0 push_not_empty)

lemma length_pop_push: "length (contents (pop (push x q))) = length (contents q)"
  by (metis contents_pop contents_push length_append_singleton length_Cons nat.inject push_not_empty)

end

interpretation fifo: queue_contract q_push q_front q_pop q_empty "\<lambda>q. q"
  by unfold_locales (auto simp: q_push_def q_front_def q_pop_def q_empty_def)

end
