(* ===== verification/Platform.thy ===== *)
theory Platform
  imports Containers
begin

unbundle bit_operations_syntax

section \<open>The platform: C integers, signals, the interval timer, jump buffers\<close>

text \<open>
  The parts of C++, of the signal interface and of \<open>setjmp.h\<close> that the sources use.  An \<open>int\<close> is
  a HOL integer together with the check that a result fits in 32 bits: signed overflow is
  undefined behaviour in C++ and is a fault of the model, never a wrap-around.  Addresses are
  64-bit words, since \<open>address_t\<close> is \<open>unsigned long\<close> on x86-64.
\<close>

subsection \<open>\<open>int\<close>\<close>

definition INT_MAX :: int where
  "INT_MAX = 2147483647"

definition INT_MIN :: int where
  "INT_MIN = - 2147483648"

definition int_ok :: "int \<Rightarrow> bool" where
  "int_ok i \<longleftrightarrow> INT_MIN \<le> i \<and> i \<le> INT_MAX"

text \<open>\<open>a + b\<close> on \<open>int\<close>: no value when it overflows.\<close>

definition add_int :: "int \<Rightarrow> int \<Rightarrow> int option" where
  "add_int a b = (if int_ok (a + b) then Some (a + b) else None)"

lemma add_int_Some [simp]: "int_ok (a + b) \<Longrightarrow> add_int a b = Some (a + b)"
  by (simp add: add_int_def)

lemma add_int_None: "\<not> int_ok (a + b) \<Longrightarrow> add_int a b = None"
  by (simp add: add_int_def)

lemma int_okI: "0 \<le> i \<Longrightarrow> i \<le> INT_MAX \<Longrightarrow> int_ok i"
  by (simp add: int_ok_def INT_MIN_def)

subsection \<open>Signal sets and the calls that can fail\<close>

type_synonym sigset = "int set"

definition SIGVTALRM :: int where
  "SIGVTALRM = 26"

definition sigemptyset :: sigset where
  "sigemptyset = {}"

definition sigaddset :: "sigset \<Rightarrow> int \<Rightarrow> sigset" where
  "sigaddset m n = insert n m"

datatype os_call = Sigemptyset | Sigaddset | Sigprocmask_block | Sigprocmask_unblock
  | Sigaction | Setitimer

subsection \<open>The interval timer\<close>

record timeval =
  tv_sec :: int
  tv_usec :: int

record itimerval =
  it_interval :: timeval
  it_value :: timeval

text \<open>The kernel accepts a \<open>timeval\<close> in canonical form only.\<close>

definition timeval_valid :: "timeval \<Rightarrow> bool" where
  "timeval_valid t \<longleftrightarrow> 0 \<le> tv_sec t \<and> 0 \<le> tv_usec t \<and> tv_usec t < 1000000"

definition itimer_valid :: "itimerval \<Rightarrow> bool" where
  "itimer_valid t \<longleftrightarrow> timeval_valid (it_interval t) \<and> timeval_valid (it_value t)"

definition microseconds :: "timeval \<Rightarrow> int" where
  "microseconds t = tv_sec t * 1000000 + tv_usec t"

subsection \<open>Jump buffers\<close>

type_synonym address = "64 word"

text \<open>
  What a \<open>sigjmp_buf\<close> of a thread can hold: the zeros of \<open>env{}\<close>; the context the constructor of
  \<open>Thread\<close> writes (mangled stack pointer, mangled program counter, signal mask); or the context
  saved by \<open>sigsetjmp\<close> inside \<open>doContextSwitch\<close>, whose stack holds the frames of the call that
  made the switch, with the signal mask of that moment.  The frames decide what happens when the
  context is jumped to, so the buffer names the call site.  A timer handler is left by the
  kernel's signal return, which restores the mask the interrupted code had.
\<close>

datatype call_site = From_terminate | From_block | From_sleep | From_timer sigset

datatype jmp_env =
    Env_zero
  | Env_entry address address sigset
  | Env_switch call_site sigset

fun saved_mask :: "jmp_env \<Rightarrow> sigset" where
  "saved_mask Env_zero = {}"
| "saved_mask (Env_entry _ _ m) = m"
| "saved_mask (Env_switch _ m) = m"

subsection \<open>Pointer mangling\<close>

text \<open>
  glibc keeps stack pointer and program counter of a \<open>jmp_buf\<close> mangled with a per-process guard
  word; code that writes them has to mangle them the same way.  \<open>siglongjmp\<close> undoes it.  The
  locale states what the code needs of the pair.
\<close>

locale pointer_guard =
  fixes mangle :: "'a \<Rightarrow> 'a"
    and demangle :: "'a \<Rightarrow> 'a"
  assumes demangle_mangle: "demangle (mangle a) = a"
begin

lemma mangle_inject: "mangle a = mangle b \<longleftrightarrow> a = b"
  by (metis demangle_mangle)

lemma mangle_inj: "inj mangle"
  by (rule injI) (simp add: mangle_inject)

lemma demangle_unique: "mangle a = b \<Longrightarrow> demangle b = a"
  by (auto simp: demangle_mangle)

end

end
