(* ===== verification/Thread.thy ===== *)
theory Thread
  imports Platform
begin

unbundle bit_operations_syntax

section \<open>Class \<open>Thread\<close>\<close>

text \<open>
  The thread object of \<open>thread.h\<close> and \<open>thread.cpp\<close>: its fields, its constructor with the initial
  context of a spawned thread, its destructor and its accessors.
\<close>

datatype ThreadState = READY | RUNNING | BLOCKED

record thread =
  env :: jmp_env
  thread_id :: int
  state :: ThreadState
  stack :: address
  quantumCount :: int
  didUserBlock :: bool

definition STACK_SIZE :: nat where
  "STACK_SIZE = 4096"

definition sizeof_address_t :: nat where
  "sizeof_address_t = 8"

subsection \<open>Address translation\<close>

text \<open>
  \<open>xor %fs:0x30,%0; rol $0x11,%0\<close> on x86-64 and \<open>xor %gs:0x18,%0; rol $0x9,%0\<close> on 32-bit x86.
  The guard word is read from the thread control block.
\<close>

definition translate_address :: "address \<Rightarrow> address \<Rightarrow> address" where
  "translate_address guard addr = word_rotl 17 (addr XOR guard)"

definition translate_address_i386 :: "32 word \<Rightarrow> 32 word \<Rightarrow> 32 word" where
  "translate_address_i386 guard addr = word_rotl 9 (addr XOR guard)"

text \<open>What \<open>siglongjmp\<close> has to do with such a word: rotate back, then \<open>xor\<close>.\<close>

definition restore_address :: "address \<Rightarrow> address \<Rightarrow> address" where
  "restore_address guard w = word_rotr 17 w XOR guard"

definition restore_address_i386 :: "32 word \<Rightarrow> 32 word \<Rightarrow> 32 word" where
  "restore_address_i386 guard w = word_rotr 9 w XOR guard"

interpretation x86_64: pointer_guard "translate_address g" "restore_address g" for g
  by unfold_locales
    (simp add: translate_address_def restore_address_def xor.assoc)

interpretation i386: pointer_guard "translate_address_i386 g" "restore_address_i386 g" for g
  by unfold_locales
    (simp add: translate_address_i386_def restore_address_i386_def xor.assoc)

subsection \<open>Construction and destruction\<close>

text \<open>\<open>stack + STACK_SIZE - sizeof(address_t)\<close>\<close>

definition initial_sp :: "address \<Rightarrow> address" where
  "initial_sp stk = stk + of_nat STACK_SIZE - of_nat sizeof_address_t"

text \<open>
  The constructor.  \<open>stk\<close> is what \<open>new(std::nothrow) char[STACK_SIZE]\<close> returned; without a stack
  the process prints the message and exits (the left result).  The first return of \<open>sigsetjmp\<close>
  is 0, and the three fields it saved that matter are overwritten.
\<close>

definition Thread_construct ::
  "address \<Rightarrow> int \<Rightarrow> address \<Rightarrow> address \<Rightarrow> string + thread" where
  "Thread_construct guard tid entryPoint stk =
     (let th = \<lparr>env = Env_zero, thread_id = tid, state = READY, stack = 0, quantumCount = 0,
                didUserBlock = False\<rparr>
      in if tid = 0 then Inr th
         else if stk = 0 then Inl ''system error: cannot allocate stack''
         else Inr (th\<lparr>stack := stk,
                env := Env_entry (translate_address guard (initial_sp stk))
                         (translate_address guard entryPoint) sigemptyset\<rparr>))"

text \<open>The arrays the destructor releases.\<close>

definition Thread_destruct :: "thread \<Rightarrow> address list" where
  "Thread_destruct th = (if thread_id th \<noteq> 0 \<and> stack th \<noteq> 0 then [stack th] else [])"

subsection \<open>Accessors\<close>

definition getState :: "thread \<Rightarrow> ThreadState" where
  "getState th = state th"

definition setState :: "ThreadState \<Rightarrow> thread \<Rightarrow> thread" where
  "setState newState th = th\<lparr>state := newState\<rparr>"

definition getEnv :: "thread \<Rightarrow> jmp_env" where
  "getEnv th = env th"

definition saveEnv :: "jmp_env \<Rightarrow> thread \<Rightarrow> thread" where
  "saveEnv e th = th\<lparr>env := e\<rparr>"

definition getQuantumCount :: "thread \<Rightarrow> int" where
  "getQuantumCount th = quantumCount th"

text \<open>\<open>quantumCount++\<close>: no value on overflow.\<close>

definition incrementQuantumCount :: "thread \<Rightarrow> thread option" where
  "incrementQuantumCount th = map_option (\<lambda>q. th\<lparr>quantumCount := q\<rparr>) (add_int (quantumCount th) 1)"

definition isUserBlocked :: "thread \<Rightarrow> bool" where
  "isUserBlocked th = didUserBlock th"

definition setBlockFlag :: "bool \<Rightarrow> thread \<Rightarrow> thread" where
  "setBlockFlag flag th = th\<lparr>didUserBlock := flag\<rparr>"

lemmas thread_accessors [simp] =
  getState_def setState_def getEnv_def saveEnv_def getQuantumCount_def isUserBlocked_def
  setBlockFlag_def

lemma setState_eta: "setState st = (\<lambda>th. th\<lparr>state := st\<rparr>)"
  by (rule ext) simp

lemma incrementQuantumCount_ok [simp]:
  "int_ok (quantumCount th + 1) \<Longrightarrow>
     incrementQuantumCount th = Some (th\<lparr>quantumCount := quantumCount th + 1\<rparr>)"
  by (simp add: incrementQuantumCount_def)

lemma construct_main: "Thread_construct g 0 entry stk =
    Inr \<lparr>env = Env_zero, thread_id = 0, state = READY, stack = 0, quantumCount = 0,
         didUserBlock = False\<rparr>"
  by (simp add: Thread_construct_def)

lemma construct_spawned:
  "tid \<noteq> 0 \<Longrightarrow> stk \<noteq> 0 \<Longrightarrow> Thread_construct g tid entry stk =
     Inr \<lparr>env = Env_entry (translate_address g (initial_sp stk)) (translate_address g entry) {},
          thread_id = tid, state = READY, stack = stk, quantumCount = 0, didUserBlock = False\<rparr>"
  by (simp add: Thread_construct_def sigemptyset_def)

subsection \<open>The initial stack pointer\<close>

text \<open>
  The slot for one address is the last one of the allocation: it lies inside the block, and its
  address is \<open>8\<close> modulo \<open>16\<close> whenever the allocation is 16-aligned, which is what the System V
  calling convention asks of a stack pointer at a function's first instruction.
\<close>

lemma unat_initial_sp:
  assumes "unat stk + STACK_SIZE \<le> 2 ^ 64"
  shows "unat (initial_sp stk) = unat stk + 4088"
proof -
  have "initial_sp stk = stk + 4088"
    by (simp add: initial_sp_def STACK_SIZE_def sizeof_address_t_def)
  moreover have "unat stk + unat (4088 :: 64 word) < 2 ^ LENGTH(64)"
    using assms by (simp add: STACK_SIZE_def)
  then have "unat (stk + 4088) = unat stk + unat (4088 :: 64 word)"
    by (rule unat_add_lem [THEN iffD1])
  ultimately show ?thesis by simp
qed

end
