(* ===== verification/Process.thy ===== *)
theory Process
  imports Thread
begin

section \<open>The state of the process and its primitive actions\<close>

text \<open>
  The static members of class \<open>Scheduler\<close>, the heap of live \<open>Thread\<close> objects and stacks they
  point into, and the part of the process the library changes: signal mask, handler, timer,
  standard error.  Pointers are addresses with 0 as null.  Every access that C++ leaves undefined
  is an explicit fault.
\<close>

datatype fault =
    Null_pointer
  | Dangling_pointer
  | Double_free
  | Int_overflow
  | Wild_jump

text \<open>The ways out of a function that are not a return.\<close>

datatype stop =
    Exit int
  | Fault fault
  | Bad_alloc
  | Jump jmp_env

record machine =
  quantumUsecs :: int
  totalQuantums :: int
  currentTid :: int
  pendingDeletionTid :: int
  threads :: "address umap"
  readyQueue :: "int list"
  sleepingThreads :: "int umap"
  heap :: "(address \<times> thread) list"
  live_stacks :: "address list"
  sigmask :: sigset
  handler_installed :: bool
  itimer :: "itimerval option"
  guard :: address
  failing :: "os_call list"
  cerr :: "string list"

type_synonym 'a act = "(stop, machine, 'a) action"

text \<open>
  The state before \<open>uthread_init\<close>: static initialisation of the members (\<open>scheduler.cpp\<close>, top of
  the file).  The guard word, the initial signal mask and the system calls that would fail
  (\<open>failing\<close>, normally none) belong to the environment.
\<close>

definition boot :: "address \<Rightarrow> sigset \<Rightarrow> os_call list \<Rightarrow> machine" where
  "boot g m fl = \<lparr>quantumUsecs = 0, totalQuantums = 0, currentTid = 0, pendingDeletionTid = -1,
     threads = [], readyQueue = [], sleepingThreads = [], heap = [], live_stacks = [],
     sigmask = m, handler_installed = False, itimer = None, guard = g, failing = fl, cerr = []\<rparr>"

subsection \<open>Standard error\<close>

definition print_err :: "string \<Rightarrow> unit act" where
  "print_err msg = modify (\<lambda>s. s\<lparr>cerr := cerr s @ [msg]\<rparr>)"

text \<open>\<open>if (call(...) fails) { cerr << msg; exit(1); }\<close>\<close>

definition check_call :: "os_call \<Rightarrow> string \<Rightarrow> unit act" where
  "check_call c msg =
     cond (\<lambda>s. c \<in> set (failing s)) (stmts [print_err msg] (leave (Exit 1))) (ret ())"

subsection \<open>Pointers\<close>

text \<open>\<open>threads[tid]\<close>: \<open>operator[]\<close> of \<open>unordered_map\<close> inserts a null pointer for a missing key.\<close>

definition threads_at :: "int \<Rightarrow> address act" where
  "threads_at tid = (\<lambda>s. case um_find (threads s) tid of
       Some p \<Rightarrow> Done p s
     | None \<Rightarrow> Done 0 (s\<lparr>threads := um_put tid 0 (threads s)\<rparr>))"

text \<open>Reading through a \<open>Thread*\<close>.\<close>

definition deref :: "address \<Rightarrow> thread act" where
  "deref p = (\<lambda>s. case um_find (heap s) p of
       Some th \<Rightarrow> Done th s
     | None \<Rightarrow> Stop (Fault (if p = 0 then Null_pointer else Dangling_pointer)) s)"

text \<open>Calling a method that changes the object; \<open>None\<close> is signed overflow inside it.\<close>

definition call_method :: "address \<Rightarrow> (thread \<Rightarrow> thread option) \<Rightarrow> unit act" where
  "call_method p f = bnd (deref p) (\<lambda>th. case f th of
       Some th' \<Rightarrow> modify (\<lambda>s. s\<lparr>heap := um_put p th' (heap s)\<rparr>)
     | None \<Rightarrow> leave (Fault Int_overflow))"

definition on_thread :: "int \<Rightarrow> (thread \<Rightarrow> thread) \<Rightarrow> unit act" where
  "on_thread tid f = bnd (threads_at tid) (\<lambda>p. call_method p (\<lambda>th. Some (f th)))"

text \<open>Reading a member through \<open>threads[tid]\<close>.\<close>

definition ask_thread :: "int \<Rightarrow> (thread \<Rightarrow> 'a) \<Rightarrow> 'a act" where
  "ask_thread tid f = bnd (threads_at tid) (\<lambda>p. bnd (deref p) (\<lambda>th. ret (f th)))"

text \<open>\<open>delete[] a\<close> for the arrays a destructor releases.\<close>

primrec free_stacks :: "address list \<Rightarrow> unit act" where
  "free_stacks [] = ret ()"
| "free_stacks (a # as) =
     bnd (cond (\<lambda>s. a \<in> set (live_stacks s))
            (modify (\<lambda>s. s\<lparr>live_stacks := filter (\<lambda>b. b \<noteq> a) (live_stacks s)\<rparr>))
            (leave (Fault Double_free)))
         (\<lambda>_. free_stacks as)"

text \<open>\<open>delete p\<close>: nothing for a null pointer, else the destructor and the release of the object.\<close>

definition delete_thread :: "address \<Rightarrow> unit act" where
  "delete_thread p = (\<lambda>s. if p = 0 then Done () s else
     case um_find (heap s) p of
       None \<Rightarrow> Stop (Fault Double_free) s
     | Some th \<Rightarrow> stmts [free_stacks (Thread_destruct th),
                     modify (\<lambda>s. s\<lparr>heap := um_erase p (heap s)\<rparr>)] (ret ()) s)"

text \<open>
  \<open>new Thread(tid, entryPoint)\<close>.  What the two allocations return is chosen by the environment:
  \<open>obj\<close> is the address for the object (0 when \<open>operator new\<close> throws), \<open>stk\<close> the one for the stack
  (0 when the \<open>nothrow\<close> allocation fails).  The main thread allocates no stack.
\<close>

record allocation =
  obj_addr :: address
  stack_addr :: address

definition new_Thread :: "allocation \<Rightarrow> int \<Rightarrow> address \<Rightarrow> address act" where
  "new_Thread al tid entryPoint =
     cond (\<lambda>_. obj_addr al = 0) (leave Bad_alloc)
       (reads (\<lambda>s. case Thread_construct (guard s) tid entryPoint (stack_addr al) of
          Inl msg \<Rightarrow> stmts [print_err msg] (leave (Exit 1))
        | Inr th \<Rightarrow> stmts
            [modify (\<lambda>s. s\<lparr>heap := um_put (obj_addr al) th (heap s),
               live_stacks := (if tid = 0 then live_stacks s
                               else live_stacks s @ [stack_addr al])\<rparr>)]
            (ret (obj_addr al))))"

subsection \<open>The thread table\<close>

text \<open>The thread a thread ID denotes: the object its entry of \<open>threads\<close> points to.\<close>

definition table :: "machine \<Rightarrow> int \<Rightarrow> thread option" where
  "table s tid = (case um_find (threads s) tid of None \<Rightarrow> None | Some p \<Rightarrow> um_find (heap s) p)"

definition tids :: "machine \<Rightarrow> int set" where
  "tids s = um_keys (threads s)"

definition sleepers :: "machine \<Rightarrow> int set" where
  "sleepers s = um_keys (sleepingThreads s)"

text \<open>
  Memory invariant.  The table owns the heap: no two entries share an object, every object is
  pointed to, no pointer is null or dangling, an object knows its ID, and the live stacks are
  exactly those of the spawned threads, one each.
\<close>

definition owned :: "machine \<Rightarrow> bool" where
  "owned s \<longleftrightarrow> um_ok (threads s) \<and> um_ok (heap s) \<and> um_ok (sleepingThreads s)
     \<and> (\<forall>t u p. um_find (threads s) t = Some p \<longrightarrow> um_find (threads s) u = Some p \<longrightarrow> t = u)
     \<and> (\<forall>t p. um_find (threads s) t = Some p \<longrightarrow> p \<in> um_keys (heap s))
     \<and> (\<forall>p \<in> um_keys (heap s). \<exists>t. um_find (threads s) t = Some p)
     \<and> 0 \<notin> um_keys (heap s)"

definition stacks_ok :: "machine \<Rightarrow> bool" where
  "stacks_ok s \<longleftrightarrow>
     (\<forall>t th. table s t = Some th \<longrightarrow> thread_id th = t \<and> (stack th = 0 \<longleftrightarrow> t = 0))
     \<and> (\<forall>t u th uh. table s t = Some th \<longrightarrow> table s u = Some uh \<longrightarrow> stack th = stack uh
           \<longrightarrow> t = u)
     \<and> (\<forall>b. b \<in> set (live_stacks s) \<longleftrightarrow>
           (\<exists>t th. table s t = Some th \<and> t \<noteq> 0 \<and> stack th = b))"

definition mem_inv :: "machine \<Rightarrow> bool" where
  "mem_inv s \<longleftrightarrow> owned s \<and> stacks_ok s"

subsection \<open>Evaluating accesses to a thread that exists\<close>

definition upd_th :: "int \<Rightarrow> (thread \<Rightarrow> thread) \<Rightarrow> machine \<Rightarrow> machine" where
  "upd_th t f s = (case um_find (threads s) t of None \<Rightarrow> s | Some p \<Rightarrow>
     (case um_find (heap s) p of None \<Rightarrow> s | Some th \<Rightarrow> s\<lparr>heap := um_put p (f th) (heap s)\<rparr>))"

definition inc :: "thread \<Rightarrow> thread" where
  "inc th = th\<lparr>quantumCount := quantumCount th + 1\<rparr>"

lemma table_SomeE:
  assumes "table s t = Some th"
  obtains p where "um_find (threads s) t = Some p" and "um_find (heap s) p = Some th"
  using assms by (auto simp: table_def split: option.splits)

lemma on_thread_ok [act_simps]:
  "table s t = Some th \<Longrightarrow> on_thread t f s = Done () (upd_th t f s)"
  by (erule table_SomeE)
    (simp add: on_thread_def call_method_def threads_at_def deref_def upd_th_def act_simps)

lemma ask_thread_ok [act_simps]: "table s t = Some th \<Longrightarrow> ask_thread t f s = Done (f th) s"
  by (erule table_SomeE) (simp add: ask_thread_def threads_at_def deref_def act_simps)

lemma call_inc_ok:
  assumes "table s t = Some th" and "int_ok (quantumCount th + 1)"
  shows "bnd (threads_at t) (\<lambda>p. call_method p incrementQuantumCount) s = Done () (upd_th t inc s)"
  using assms(1)
proof (rule table_SomeE)
  fix p
  assume "um_find (threads s) t = Some p" and "um_find (heap s) p = Some th"
  with assms(2) show ?thesis
    by (simp add: call_method_def threads_at_def deref_def upd_th_def act_simps inc_def)
qed

lemma owned_table: "owned s \<Longrightarrow> t \<in> tids s \<longleftrightarrow> (\<exists>th. table s t = Some th)"
  by (auto simp: owned_def tids_def table_def um.keys_find split: option.splits)

lemma table_tids: "table s t = Some th \<Longrightarrow> t \<in> tids s"
  by (auto simp: tids_def um.keys_find elim: table_SomeE)

lemma owned_heap: "owned s \<Longrightarrow> um_find (threads s) t = Some p \<Longrightarrow> \<exists>th. um_find (heap s) p = Some th"
  unfolding owned_def um.keys_find by (metis not_None_eq)

lemma owned_nonnull: "owned s \<Longrightarrow> um_find (threads s) t \<noteq> Some 0"
  unfolding owned_def by metis

lemma owned_None: "owned s \<Longrightarrow> t \<notin> tids s \<longleftrightarrow> table s t = None"
  by (simp add: owned_table)

subsection \<open>Frames\<close>

lemma upd_th_frame [simp, frame_simps]:
  "threads (upd_th t f s) = threads s" "readyQueue (upd_th t f s) = readyQueue s"
  "sleepingThreads (upd_th t f s) = sleepingThreads s" "quantumUsecs (upd_th t f s) = quantumUsecs s"
  "totalQuantums (upd_th t f s) = totalQuantums s" "currentTid (upd_th t f s) = currentTid s"
  "pendingDeletionTid (upd_th t f s) = pendingDeletionTid s"
  "live_stacks (upd_th t f s) = live_stacks s" "sigmask (upd_th t f s) = sigmask s"
  "handler_installed (upd_th t f s) = handler_installed s" "itimer (upd_th t f s) = itimer s"
  "guard (upd_th t f s) = guard s" "failing (upd_th t f s) = failing s" "cerr (upd_th t f s) = cerr s"
  by (simp_all add: upd_th_def split: option.splits)

lemma upd_th_derived [simp, frame_simps]:
  "tids (upd_th t f s) = tids s" "sleepers (upd_th t f s) = sleepers s"
  by (simp_all add: tids_def sleepers_def)

lemma heap_keys_upd_th [simp]: "um_keys (heap (upd_th t f s)) = um_keys (heap s)"
  by (auto simp: upd_th_def insert_absorb um_find_SomeD split: option.splits)

lemma table_upd_th [simp]:
  assumes "owned s"
  shows "table (upd_th t f s) = (table s)(t := map_option f (table s t))"
proof
  fix u
  show "table (upd_th t f s) u = ((table s)(t := map_option f (table s t))) u"
    using assms by (auto simp: upd_th_def table_def owned_def split: option.splits)
qed

lemma owned_upd_th [simp]: "owned s \<Longrightarrow> owned (upd_th t f s)"
  unfolding owned_def by (auto simp: upd_th_def split: option.splits)

lemma table_frame [simp, frame_simps]:
  "table (s\<lparr>readyQueue := q\<rparr>) = table s" "table (s\<lparr>sleepingThreads := m\<rparr>) = table s"
  "table (s\<lparr>quantumUsecs := i\<rparr>) = table s" "table (s\<lparr>totalQuantums := i\<rparr>) = table s"
  "table (s\<lparr>currentTid := i\<rparr>) = table s" "table (s\<lparr>pendingDeletionTid := i\<rparr>) = table s"
  "table (s\<lparr>live_stacks := l\<rparr>) = table s" "table (s\<lparr>sigmask := g\<rparr>) = table s"
  "table (s\<lparr>handler_installed := b\<rparr>) = table s" "table (s\<lparr>itimer := v\<rparr>) = table s"
  "table (s\<lparr>cerr := e\<rparr>) = table s" "table (s\<lparr>failing := fl\<rparr>) = table s"
  by (simp_all add: table_def fun_eq_iff split: option.splits)

lemma tids_frame [simp, frame_simps]:
  "tids (s\<lparr>readyQueue := q\<rparr>) = tids s" "tids (s\<lparr>sleepingThreads := m\<rparr>) = tids s"
  "tids (s\<lparr>quantumUsecs := i\<rparr>) = tids s" "tids (s\<lparr>totalQuantums := i\<rparr>) = tids s"
  "tids (s\<lparr>currentTid := i\<rparr>) = tids s" "tids (s\<lparr>pendingDeletionTid := i\<rparr>) = tids s"
  "tids (s\<lparr>live_stacks := l\<rparr>) = tids s" "tids (s\<lparr>sigmask := g\<rparr>) = tids s"
  "tids (s\<lparr>handler_installed := b\<rparr>) = tids s" "tids (s\<lparr>itimer := v\<rparr>) = tids s"
  "tids (s\<lparr>cerr := e\<rparr>) = tids s" "tids (s\<lparr>failing := fl\<rparr>) = tids s"
  "tids (s\<lparr>heap := h\<rparr>) = tids s"
  by (simp_all add: tids_def)

lemma sleepers_frame [simp, frame_simps]:
  "sleepers (s\<lparr>readyQueue := q\<rparr>) = sleepers s" "sleepers (s\<lparr>threads := ts\<rparr>) = sleepers s"
  "sleepers (s\<lparr>quantumUsecs := i\<rparr>) = sleepers s" "sleepers (s\<lparr>totalQuantums := i\<rparr>) = sleepers s"
  "sleepers (s\<lparr>currentTid := i\<rparr>) = sleepers s" "sleepers (s\<lparr>pendingDeletionTid := i\<rparr>) = sleepers s"
  "sleepers (s\<lparr>live_stacks := l\<rparr>) = sleepers s" "sleepers (s\<lparr>sigmask := g\<rparr>) = sleepers s"
  "sleepers (s\<lparr>handler_installed := b\<rparr>) = sleepers s" "sleepers (s\<lparr>itimer := v\<rparr>) = sleepers s"
  "sleepers (s\<lparr>cerr := e\<rparr>) = sleepers s" "sleepers (s\<lparr>failing := fl\<rparr>) = sleepers s"
  "sleepers (s\<lparr>heap := h\<rparr>) = sleepers s"
  by (simp_all add: sleepers_def)

lemma owned_frame [simp, frame_simps]:
  "owned (s\<lparr>readyQueue := q\<rparr>) = owned s" "owned (s\<lparr>quantumUsecs := i\<rparr>) = owned s"
  "owned (s\<lparr>totalQuantums := i\<rparr>) = owned s" "owned (s\<lparr>currentTid := i\<rparr>) = owned s"
  "owned (s\<lparr>pendingDeletionTid := i\<rparr>) = owned s" "owned (s\<lparr>live_stacks := l\<rparr>) = owned s"
  "owned (s\<lparr>sigmask := g\<rparr>) = owned s" "owned (s\<lparr>handler_installed := b\<rparr>) = owned s"
  "owned (s\<lparr>itimer := v\<rparr>) = owned s" "owned (s\<lparr>cerr := e\<rparr>) = owned s"
  "owned (s\<lparr>failing := fl\<rparr>) = owned s"
  by (simp_all add: owned_def)

lemma owned_sleeping:
  "owned s \<Longrightarrow> um_ok m \<Longrightarrow> owned (s\<lparr>sleepingThreads := m\<rparr>)"
  by (simp add: owned_def)

lemma owned_um_ok: "owned s \<Longrightarrow> um_ok (threads s)" "owned s \<Longrightarrow> um_ok (heap s)"
  "owned s \<Longrightarrow> um_ok (sleepingThreads s)"
  by (simp_all add: owned_def)

end
