(* ===== verification/Scheduler.thy ===== *)
theory Scheduler
  imports Process
begin

section \<open>Class \<open>Scheduler\<close>\<close>

text \<open>
  The functions of \<open>scheduler.cpp\<close>, in the order of the file, statement by statement.  A function
  that switches threads ends in a jump; what happens at the other end of the jump, after the
  second return of \<open>sigsetjmp\<close>, is \<open>switch_return\<close>.
\<close>

definition MAX_THREAD_NUM :: int where
  "MAX_THREAD_NUM = 100"

subsection \<open>Signal mask\<close>

definition blockTimerSignal :: "unit act" where
  "blockTimerSignal = stmts
     [check_call Sigemptyset ''system error: sigemptyset failed'',
      check_call Sigaddset ''system error: sigaddset failed'',
      check_call Sigprocmask_block ''system error: sigprocmask BLOCK failed'',
      modify (\<lambda>s. s\<lparr>sigmask := sigmask s \<union> sigaddset sigemptyset SIGVTALRM\<rparr>)] (ret ())"

definition unblockTimerSignal :: "unit act" where
  "unblockTimerSignal = stmts
     [check_call Sigemptyset ''system error: sigemptyset failed'',
      check_call Sigaddset ''system error: sigaddset failed'',
      check_call Sigprocmask_unblock ''system error: sigprocmask UNBLOCK failed'',
      modify (\<lambda>s. s\<lparr>sigmask := sigmask s - sigaddset sigemptyset SIGVTALRM\<rparr>)] (ret ())"

subsection \<open>Private functions\<close>

text \<open>The loop of \<open>removeFromReadyQueue\<close>; \<open>temp\<close> is \<open>tempQueue\<close>.\<close>

function remove_loop :: "int \<Rightarrow> int list \<Rightarrow> int list \<Rightarrow> int list" where
  "remove_loop tid q temp =
     (if q_empty q then temp
      else let current = q_front q
           in remove_loop tid (q_pop q) (if current \<noteq> tid then q_push current temp else temp))"
  by pat_completeness auto
termination
  by (relation "measure (\<lambda>(tid, q, temp). length q)") (auto simp: q_empty_def q_pop_def)

declare remove_loop.simps [simp del]

definition removeFromReadyQueue :: "int \<Rightarrow> unit act" where
  "removeFromReadyQueue tid = stmts
     [blockTimerSignal,
      modify (\<lambda>s. s\<lparr>readyQueue := remove_loop tid (readyQueue s) []\<rparr>),
      unblockTimerSignal] (ret ())"

text \<open>The loop of \<open>nextAvailableTid\<close>.\<close>

function available_from :: "address umap \<Rightarrow> int \<Rightarrow> int" where
  "available_from ts tid =
     (if tid < MAX_THREAD_NUM
      then if um_count ts tid = 0 then tid else available_from ts (tid + 1)
      else -1)"
  by pat_completeness auto
termination
  by (relation "measure (\<lambda>(ts, tid). nat (MAX_THREAD_NUM - tid))") auto

declare available_from.simps [simp del]

definition nextAvailableTid :: "int act" where
  "nextAvailableTid = reads (\<lambda>s. ret (available_from (threads s) 0))"

definition push_ready :: "int \<Rightarrow> unit act" where
  "push_ready tid = modify (\<lambda>s. s\<lparr>readyQueue := q_push tid (readyQueue s)\<rparr>)"

text \<open>
  The loop of \<open>wakeSleepingThreads\<close> over the entries of \<open>sleepingThreads\<close>, in iteration order.
  Erasing the current entry leaves the ones not yet visited, and their order, alone.
\<close>

primrec wake_loop :: "int umap \<Rightarrow> unit act" where
  "wake_loop [] = ret ()"
| "wake_loop (e # it) = cond (\<lambda>s. totalQuantums s \<ge> snd e)
     (bnd (ask_thread (fst e) isUserBlocked) (\<lambda>b. stmts
        [if b then ret ()
         else stmts [on_thread (fst e) (setState READY), push_ready (fst e)] (ret ()),
         modify (\<lambda>s. s\<lparr>sleepingThreads := um_erase (fst e) (sleepingThreads s)\<rparr>)]
        (wake_loop it)))
     (wake_loop it)"

definition wakeSleepingThreads :: "unit act" where
  "wakeSleepingThreads = reads (\<lambda>s. wake_loop (sleepingThreads s))"

definition setupSignalHandler :: "unit act" where
  "setupSignalHandler = stmts
     [check_call Sigaction ''system error: failed to set signal handler'',
      modify (\<lambda>s. s\<lparr>handler_installed := True\<rparr>)] (ret ())"

text \<open>\<open>/\<close> and \<open>%\<close> of C++ truncate towards zero.\<close>

definition quantum_timer :: "int \<Rightarrow> itimerval" where
  "quantum_timer q =
     (let t = \<lparr>tv_sec = q sdiv 1000000, tv_usec = q smod 1000000\<rparr>
      in \<lparr>it_interval = t, it_value = t\<rparr>)"

definition setupTimer :: "unit act" where
  "setupTimer = reads (\<lambda>s. let timer = quantum_timer (quantumUsecs s) in
     cond (\<lambda>s. Setitimer \<in> set (failing s) \<or> \<not> itimer_valid timer)
       (stmts [print_err ''system error: failed to set timer''] (leave (Exit 1)))
       (modify (\<lambda>s. s\<lparr>itimer := Some timer\<rparr>)))"

subsection \<open>The context switch\<close>

text \<open>\<open>siglongjmp\<close> restores the saved signal mask; a buffer nobody saved is undefined.\<close>

definition siglongjmp :: "jmp_env \<Rightarrow> unit act" where
  "siglongjmp e = (if e = Env_zero then leave (Fault Wild_jump)
     else stmts [modify (\<lambda>s. s\<lparr>sigmask := saved_mask e\<rparr>)] (leave (Jump e)))"

text \<open>\<open>doContextSwitch\<close> up to the jump; \<open>site\<close> is the call that made the switch.\<close>

definition doContextSwitch :: "call_site \<Rightarrow> unit act" where
  "doContextSwitch site = stmts
     [blockTimerSignal,
      cond (\<lambda>s. currentTid s \<noteq> pendingDeletionTid s \<and> length (threads s) > 1)
        (stmts [reads (\<lambda>s. on_thread (currentTid s) (setState READY)),
                reads (\<lambda>s. push_ready (currentTid s))] (ret ()))
        (ret ()),
      reads (\<lambda>s. on_thread (currentTid s) (saveEnv (Env_switch site (sigmask s)))),
      cond (\<lambda>s. \<not> q_empty (readyQueue s))
        (stmts [modify (\<lambda>s. s\<lparr>readyQueue := q_pop (readyQueue s),
                              currentTid := q_front (readyQueue s)\<rparr>),
                reads (\<lambda>s. on_thread (currentTid s) (setState RUNNING))] (ret ()))
        (ret ()),
      reads (\<lambda>s. bnd (threads_at (currentTid s)) (\<lambda>p. call_method p incrementQuantumCount)),
      reads (\<lambda>s. case add_int (totalQuantums s) 1 of
          None \<Rightarrow> leave (Fault Int_overflow)
        | Some n \<Rightarrow> modify (\<lambda>s. s\<lparr>totalQuantums := n\<rparr>)),
      setupTimer]
     (reads (\<lambda>s. bnd (ask_thread (currentTid s) getEnv) siglongjmp))"

text \<open>The branch \<open>ret_val != 0\<close>: control has come back to a context saved by \<open>sigsetjmp\<close>.\<close>

definition switch_return :: "unit act" where
  "switch_return = stmts
     [cond (\<lambda>s. pendingDeletionTid s \<noteq> -1)
        (stmts [reads (\<lambda>s. bnd (threads_at (pendingDeletionTid s)) delete_thread),
                modify (\<lambda>s. s\<lparr>threads := um_erase (pendingDeletionTid s) (threads s)\<rparr>),
                modify (\<lambda>s. s\<lparr>pendingDeletionTid := -1\<rparr>)] (ret ()))
        (ret ()),
      unblockTimerSignal] (ret ())"

definition timerHandler :: "sigset \<Rightarrow> unit act" where
  "timerHandler interrupted_mask = stmts
     [blockTimerSignal, wakeSleepingThreads, unblockTimerSignal]
     (doContextSwitch (From_timer interrupted_mask))"

subsection \<open>The scheduler's interface\<close>

definition sched_init :: "allocation \<Rightarrow> int \<Rightarrow> int act" where
  "sched_init al quantum_usecs = stmts
     [modify (\<lambda>s. s\<lparr>quantumUsecs := quantum_usecs\<rparr>)]
     (bnd (new_Thread al 0 0) (\<lambda>mainThread. stmts
       [modify (\<lambda>s. s\<lparr>threads := um_put 0 mainThread (threads s)\<rparr>),
        call_method mainThread (\<lambda>th. Some (setState RUNNING th)),
        modify (\<lambda>s. s\<lparr>currentTid := 0\<rparr>),
        call_method mainThread incrementQuantumCount,
        modify (\<lambda>s. s\<lparr>totalQuantums := 1\<rparr>),
        setupSignalHandler,
        setupTimer] (ret 0)))"

text \<open>The part of \<open>spawn\<close> after the choice of \<open>tid\<close>.\<close>

definition spawn_with :: "allocation \<Rightarrow> address \<Rightarrow> int \<Rightarrow> int act" where
  "spawn_with al entryPoint tid = stmts [blockTimerSignal]
     (bnd (new_Thread al tid entryPoint) (\<lambda>newThread. stmts
       [modify (\<lambda>s. s\<lparr>threads := um_put tid newThread (threads s)\<rparr>),
        push_ready tid,
        unblockTimerSignal] (ret tid)))"

definition spawn :: "allocation \<Rightarrow> address \<Rightarrow> int act" where
  "spawn al entryPoint = bnd nextAvailableTid (\<lambda>tid.
     if tid = -1
     then stmts [print_err ''thread library error: reached maximum thread limit''] (ret (-1))
     else spawn_with al entryPoint tid)"

text \<open>\<open>for (auto & thread : threads) delete thread.second;\<close>\<close>

primrec delete_all :: "address umap \<Rightarrow> unit act" where
  "delete_all [] = ret ()"
| "delete_all (e # es) = stmts [delete_thread (snd e)] (delete_all es)"

definition terminate :: "int \<Rightarrow> int act" where
  "terminate tid = stmts [blockTimerSignal] (cond (\<lambda>_. tid = 0)
     (stmts [reads (\<lambda>s. delete_all (threads s)),
             modify (\<lambda>s. s\<lparr>threads := []\<rparr>),
             unblockTimerSignal] (leave (Exit 0)))
     (bnd (ask_thread tid getState) (\<lambda>st. stmts
       [if st = READY then removeFromReadyQueue tid else ret ()]
       (cond (\<lambda>s. tid \<noteq> currentTid s)
         (stmts [modify (\<lambda>s. s\<lparr>sleepingThreads := um_erase tid (sleepingThreads s)\<rparr>),
                 bnd (threads_at tid) delete_thread,
                 modify (\<lambda>s. s\<lparr>threads := um_erase tid (threads s)\<rparr>),
                 unblockTimerSignal] (ret 0))
         (cond (\<lambda>s. q_empty (readyQueue s))
           (stmts [print_err ''thread library error: no threads left to run after termination'',
                   unblockTimerSignal] (ret (-1)))
           (stmts [modify (\<lambda>s. s\<lparr>pendingDeletionTid := currentTid s\<rparr>),
                   reads (\<lambda>s. on_thread (pendingDeletionTid s) (setState READY)),
                   doContextSwitch From_terminate] (ret 0)))))))"

definition block :: "int \<Rightarrow> int act" where
  "block tid = bnd (threads_at tid) (\<lambda>p. bnd (deref p) (\<lambda>th.
     let st = getState th in
     if isUserBlocked th then ret 0
     else if st = READY \<or> st = BLOCKED then stmts
       [blockTimerSignal,
        if st = READY then removeFromReadyQueue tid else ret (),
        call_method p (\<lambda>th. Some (setState BLOCKED th)),
        call_method p (\<lambda>th. Some (setBlockFlag True th)),
        unblockTimerSignal] (ret 0)
     else cond (\<lambda>s. tid = currentTid s)
       (stmts [blockTimerSignal, call_method p (\<lambda>th. Some (setState BLOCKED th))]
         (cond (\<lambda>s. q_empty (readyQueue s))
           (stmts [print_err ''thread library error: no threads left to run after blocking'',
                   call_method p (\<lambda>th. Some (setState RUNNING th)),
                   unblockTimerSignal] (ret (-1)))
           (stmts [call_method p (\<lambda>th. Some (setBlockFlag True th)),
                   doContextSwitch From_block] (ret 0))))
       (ret 0)))"

definition resume :: "int \<Rightarrow> int act" where
  "resume tid = cond (\<lambda>s. tid < 0 \<or> um_count (threads s) tid = 0)
     (stmts [print_err ''thread library error: invalid tid''] (ret (-1)))
     (bnd (threads_at tid) (\<lambda>p. bnd (deref p) (\<lambda>th.
       if getState th \<noteq> BLOCKED then ret 0
       else stmts [blockTimerSignal] (cond (\<lambda>s. um_count (sleepingThreads s) tid > 0)
         (stmts [call_method p (\<lambda>th. Some (setBlockFlag False th)), unblockTimerSignal] (ret 0))
         (stmts [call_method p (\<lambda>th. Some (setState READY th)), push_ready tid,
                 unblockTimerSignal] (ret 0))))))"

definition sleep :: "int \<Rightarrow> int act" where
  "sleep numQuantums = stmts [blockTimerSignal]
     (bnd (reads (\<lambda>s. threads_at (currentTid s))) (\<lambda>p. stmts
       [call_method p (\<lambda>th. Some (setState BLOCKED th)),
        reads (\<lambda>s. case add_int (totalQuantums s) numQuantums of
            None \<Rightarrow> leave (Fault Int_overflow)
          | Some d \<Rightarrow> modify (\<lambda>s. s\<lparr>sleepingThreads :=
                                   um_put (currentTid s) d (sleepingThreads s)\<rparr>))]
       (cond (\<lambda>s. q_empty (readyQueue s))
         (stmts [print_err ''thread library error: no threads left to run after sleep'',
                 call_method p (\<lambda>th. Some (setState RUNNING th)),
                 modify (\<lambda>s. s\<lparr>sleepingThreads := um_erase (currentTid s) (sleepingThreads s)\<rparr>),
                 unblockTimerSignal] (ret (-1)))
         (stmts [doContextSwitch From_sleep] (ret 0)))))"

definition getTid :: "int act" where
  "getTid = reads (\<lambda>s. ret (currentTid s))"

definition getThreadById :: "int \<Rightarrow> address act" where
  "getThreadById tid = cond (\<lambda>s. um_count (threads s) tid = 0) (ret 0) (threads_at tid)"

definition getTotalQuantums :: "int act" where
  "getTotalQuantums = reads (\<lambda>s. ret (totalQuantums s))"

definition getQuantums :: "int \<Rightarrow> int act" where
  "getQuantums tid = stmts [blockTimerSignal] (cond (\<lambda>s. um_count (threads s) tid = 0)
     (stmts [print_err ''thread library error: invalid tid''] (ret (-1)))
     (stmts [unblockTimerSignal] (ask_thread tid getQuantumCount)))"

end
