(* ===== verification/Uthreads.thy ===== *)
theory Uthreads
  imports Scheduler
begin

section \<open>The external interface\<close>

text \<open>
  \<open>uthreads.cpp\<close>: the argument checks in front of the scheduler.  A \<open>thread_entry_point\<close> is the
  address of a function, 0 for \<open>nullptr\<close>.
\<close>

definition err_invalid_tid :: string where
  "err_invalid_tid = ''thread library error: invalid tid''"

definition err_no_thread :: "int \<Rightarrow> string" where
  "err_no_thread tid = ''thread library error: there is no thread with id: '' @ show_int tid"

definition uthread_init :: "allocation \<Rightarrow> int \<Rightarrow> int act" where
  "uthread_init al quantum_usecs =
     (if quantum_usecs \<le> 0
      then stmts [print_err ''thread library error: quantum_usecs must be positive''] (ret (-1))
      else sched_init al quantum_usecs)"

definition uthread_spawn :: "allocation \<Rightarrow> address \<Rightarrow> int act" where
  "uthread_spawn al entry_point =
     (if entry_point = 0
      then stmts [print_err ''thread library error: entryPoint cannot be null''] (ret (-1))
      else spawn al entry_point)"

definition uthread_terminate :: "int \<Rightarrow> int act" where
  "uthread_terminate tid =
     (if tid < 0 \<or> tid \<ge> MAX_THREAD_NUM then stmts [print_err err_invalid_tid] (ret (-1))
      else bnd (getThreadById tid) (\<lambda>p.
        if p = 0 then stmts [print_err (err_no_thread tid)] (ret (-1))
        else terminate tid))"

definition uthread_block :: "int \<Rightarrow> int act" where
  "uthread_block tid =
     (if tid < 0 \<or> tid \<ge> MAX_THREAD_NUM then stmts [print_err err_invalid_tid] (ret (-1))
      else if tid = 0
      then stmts [print_err ''thread library error: cannot block main thread''] (ret (-1))
      else bnd (getThreadById tid) (\<lambda>p.
        if p = 0 then stmts [print_err (err_no_thread tid)] (ret (-1))
        else block tid))"

definition uthread_resume :: "int \<Rightarrow> int act" where
  "uthread_resume tid =
     (if tid < 0 \<or> tid \<ge> MAX_THREAD_NUM then stmts [print_err err_invalid_tid] (ret (-1))
      else bnd (getThreadById tid) (\<lambda>p.
        if p = 0 then stmts [print_err (err_no_thread tid)] (ret (-1))
        else resume tid))"

definition uthread_sleep :: "int \<Rightarrow> int act" where
  "uthread_sleep num_quantums =
     (if num_quantums \<le> 0
      then stmts [print_err ''thread library error: numQuantums must be positive''] (ret (-1))
      else bnd getTid (\<lambda>tid.
        if tid = 0
        then stmts [print_err ''thread library error: main thread cannot sleep''] (ret (-1))
        else sleep num_quantums))"

definition uthread_get_tid :: "int act" where
  "uthread_get_tid = getTid"

definition uthread_get_total_quantums :: "int act" where
  "uthread_get_total_quantums = getTotalQuantums"

definition uthread_get_quantums :: "int \<Rightarrow> int act" where
  "uthread_get_quantums tid = getQuantums tid"

end
