(* ===== verification/Exec.thy ===== *)
theory Exec
  imports Uthreads
begin

section \<open>Executions: calls, timer signals, and the far side of a jump\<close>

text \<open>
  What a program using the library can do: call one of its functions, or be interrupted by the
  timer signal.  An event is carried to the point where some thread is running user code again.
  When a function leaves by a jump, control arrives in the context of the thread switched to:
  at its entry point if it has never run, else in \<open>doContextSwitch\<close> behind \<open>sigsetjmp\<close>, whose
  remaining statements run before the old call of that thread returns.  Events are atomic: the
  timer signal is delivered between calls, not inside them.
\<close>

datatype api_call =
    Init int
  | Spawn address
  | Terminate int
  | Block int
  | Resume int
  | Sleep int
  | Get_tid
  | Get_total_quantums
  | Get_quantums int

fun api :: "allocation \<Rightarrow> api_call \<Rightarrow> int act" where
  "api al (Init q) = uthread_init al q"
| "api al (Spawn entry) = uthread_spawn al entry"
| "api al (Terminate t) = uthread_terminate t"
| "api al (Block t) = uthread_block t"
| "api al (Resume t) = uthread_resume t"
| "api al (Sleep n) = uthread_sleep n"
| "api al Get_tid = uthread_get_tid"
| "api al Get_total_quantums = uthread_get_total_quantums"
| "api al (Get_quantums t) = uthread_get_quantums t"

text \<open>
  How the running thread continues: a call returns a value to it; it starts at its entry point
  with the given (mangled) stack pointer and program counter; or an earlier call of its own comes
  back.
\<close>

datatype control =
    Returns int
  | Starts address address
  | Comes_back call_site

datatype result = Goes control machine | Halts stop machine

text \<open>Arrival at a context after \<open>siglongjmp\<close>.  Leaving the timer handler restores the mask.\<close>

fun arrive :: "jmp_env \<Rightarrow> machine \<Rightarrow> result" where
  "arrive Env_zero s = Halts (Fault Wild_jump) s"
| "arrive (Env_entry sp pc _) s = Goes (Starts sp pc) s"
| "arrive (Env_switch site _) s = (case switch_return s of
     Stop e t \<Rightarrow> Halts e t
   | Done _ t \<Rightarrow> Goes (Comes_back site)
       (case site of From_timer m \<Rightarrow> t\<lparr>sigmask := m\<rparr> | _ \<Rightarrow> t))"

fun settle :: "(stop, machine, int) outcome \<Rightarrow> result" where
  "settle (Done v s) = Goes (Returns v) s"
| "settle (Stop (Jump e) s) = arrive e s"
| "settle (Stop (Exit n) s) = Halts (Exit n) s"
| "settle (Stop (Fault f) s) = Halts (Fault f) s"
| "settle (Stop Bad_alloc s) = Halts Bad_alloc s"

definition perform :: "allocation \<Rightarrow> api_call \<Rightarrow> machine \<Rightarrow> result" where
  "perform al c s = settle (api al c s)"

text \<open>
  Delivery of SIGVTALRM: the kernel adds the signal to the mask while the handler runs.  With the
  signal blocked, or no handler installed yet, nothing is delivered.
\<close>

definition tick_enabled :: "machine \<Rightarrow> bool" where
  "tick_enabled s \<longleftrightarrow> handler_installed s \<and> SIGVTALRM \<notin> sigmask s"

definition tick :: "machine \<Rightarrow> result" where
  "tick s = settle (bnd (timerHandler (sigmask s)) (\<lambda>_. ret 0)
     (s\<lparr>sigmask := insert SIGVTALRM (sigmask s)\<rparr>))"

end
