(* ===== verification/Eval.thy ===== *)
theory Eval
  imports Exec
begin

section \<open>Closed forms: what each helper and the context switch compute\<close>

text \<open>
  Evaluation lemmas.  While system calls succeed (\<open>failing s = []\<close>) and the threads involved
  exist, every function of the scheduler has a closed form; the proofs of the properties rewrite
  with these and never unfold the statements again.
\<close>

subsection \<open>Signals and the timer\<close>

lemma check_call_ok [act_simps]: "c \<notin> set (failing s) \<Longrightarrow> check_call c msg s = Done () s"
  by (simp add: check_call_def act_simps)

lemma check_call_fails:
  "c \<in> set (failing s) \<Longrightarrow> check_call c msg s = Stop (Exit 1) (s\<lparr>cerr := cerr s @ [msg]\<rparr>)"
  by (simp add: check_call_def print_err_def act_simps)

lemma print_err_apply [act_simps]: "print_err msg s = Done () (s\<lparr>cerr := cerr s @ [msg]\<rparr>)"
  by (simp add: print_err_def act_simps)

lemma blockTimerSignal_ok [act_simps]:
  "failing s = [] \<Longrightarrow>
     blockTimerSignal s = Done () (s\<lparr>sigmask := insert SIGVTALRM (sigmask s)\<rparr>)"
  by (simp add: blockTimerSignal_def act_simps sigaddset_def sigemptyset_def)

lemma unblockTimerSignal_ok [act_simps]:
  "failing s = [] \<Longrightarrow>
     unblockTimerSignal s = Done () (s\<lparr>sigmask := sigmask s - {SIGVTALRM}\<rparr>)"
  by (simp add: unblockTimerSignal_def act_simps sigaddset_def sigemptyset_def)

lemma quantum_timer_valid: "0 \<le> q \<Longrightarrow> itimer_valid (quantum_timer q)"
  by (simp add: quantum_timer_def itimer_valid_def timeval_valid_def Let_def
      signed_divide_int_def signed_modulo_int_def sgn_if)

lemma setupTimer_ok [act_simps]:
  "failing s = [] \<Longrightarrow> 0 \<le> quantumUsecs s \<Longrightarrow>
     setupTimer s = Done () (s\<lparr>itimer := Some (quantum_timer (quantumUsecs s))\<rparr>)"
  by (simp add: setupTimer_def act_simps quantum_timer_valid)

subsection \<open>The loops\<close>

lemma remove_loop_Nil [simp]: "remove_loop tid [] temp = temp"
  by (subst remove_loop.simps) (simp add: q_empty_def)

lemma remove_loop_Cons [simp]:
  "remove_loop tid (x # q) temp = remove_loop tid q (if x = tid then temp else temp @ [x])"
  by (subst remove_loop.simps) (simp add: q_empty_def q_front_def q_pop_def q_push_def)

lemma remove_loop_filter: "remove_loop tid q temp = temp @ filter (\<lambda>x. x \<noteq> tid) q"
  by (induction q arbitrary: temp) simp_all

lemma removeFromReadyQueue_ok [act_simps]:
  "failing s = [] \<Longrightarrow> removeFromReadyQueue tid s =
     Done () (s\<lparr>readyQueue := filter (\<lambda>x. x \<noteq> tid) (readyQueue s),
                sigmask := sigmask s - {SIGVTALRM}\<rparr>)"
  by (simp add: removeFromReadyQueue_def act_simps remove_loop_filter)

lemma available_from_spec:
  assumes "0 \<le> tid"
  shows "(available_from ts tid = -1 \<and> (\<forall>t. tid \<le> t \<and> t < MAX_THREAD_NUM \<longrightarrow> t \<in> um_keys ts))
    \<or> (tid \<le> available_from ts tid \<and> available_from ts tid < MAX_THREAD_NUM
       \<and> available_from ts tid \<notin> um_keys ts
       \<and> (\<forall>t. tid \<le> t \<and> t < available_from ts tid \<longrightarrow> t \<in> um_keys ts))"
  using assms
proof (induction ts tid rule: available_from.induct)
  case (1 ts tid)
  show ?case
  proof (cases "tid < MAX_THREAD_NUM \<and> tid \<in> um_keys ts")
    case True
    then have eq: "available_from ts tid = available_from ts (tid + 1)"
      by (simp add: available_from.simps [of ts tid])
    have split: "tid \<le> t \<longleftrightarrow> t = tid \<or> tid + 1 \<le> t" for t
      by arith
    have "tid < MAX_THREAD_NUM" "um_count ts tid \<noteq> 0" "0 \<le> tid + 1"
      using True "1.prems" by simp_all
    from "1.IH" [OF this] True show ?thesis
      unfolding eq split by auto
  next
    case False
    then show ?thesis
      by (auto simp: available_from.simps [of ts tid])
  qed
qed

lemma push_ready_apply [act_simps]:
  "push_ready t s = Done () (s\<lparr>readyQueue := readyQueue s @ [t]\<rparr>)"
  by (simp add: push_ready_def act_simps q_push_def)

subsection \<open>Threads that exist\<close>

lemma threads_at_ok [act_simps]:
  "um_find (threads s) t = Some p \<Longrightarrow> threads_at t s = Done p s"
  by (simp add: threads_at_def)

lemma deref_ok [act_simps]: "um_find (heap s) p = Some th \<Longrightarrow> deref p s = Done th s"
  by (simp add: deref_def)

lemma call_method_ok:
  assumes "um_find (threads s) t = Some p" and "table s t = Some th"
  shows "call_method p (\<lambda>th. Some (f th)) s = Done () (upd_th t f s)"
  using assms by (simp add: call_method_def act_simps upd_th_def table_def)

lemma siglongjmp_apply [act_simps]:
  "siglongjmp e s = (if e = Env_zero then Stop (Fault Wild_jump) s
     else Stop (Jump e) (s\<lparr>sigmask := saved_mask e\<rparr>))"
  by (simp add: siglongjmp_def act_simps)

subsection \<open>The context switch\<close>

text \<open>Whether the running thread goes back to the ready queue, and who runs next.\<close>

definition requeues :: "machine \<Rightarrow> bool" where
  "requeues s \<longleftrightarrow> currentTid s \<noteq> pendingDeletionTid s \<and> length (threads s) > 1"

definition next_queue :: "machine \<Rightarrow> int list" where
  "next_queue s = (if requeues s then readyQueue s @ [currentTid s] else readyQueue s)"

definition next_tid :: "machine \<Rightarrow> int" where
  "next_tid s = (if next_queue s = [] then currentTid s else hd (next_queue s))"

definition put_back :: "machine \<Rightarrow> machine" where
  "put_back s = (if requeues s
     then (upd_th (currentTid s) (setState READY) s)\<lparr>readyQueue := readyQueue s @ [currentTid s]\<rparr>
     else s)"

definition save_context :: "call_site \<Rightarrow> machine \<Rightarrow> machine" where
  "save_context site s = upd_th (currentTid s) (saveEnv (Env_switch site (sigmask s))) s"

definition pick_next :: "machine \<Rightarrow> machine" where
  "pick_next s = (if readyQueue s = [] then s
     else upd_th (hd (readyQueue s)) (setState RUNNING)
            (s\<lparr>readyQueue := tl (readyQueue s), currentTid := hd (readyQueue s)\<rparr>))"

definition count_quantum :: "machine \<Rightarrow> machine" where
  "count_quantum s = (upd_th (currentTid s) inc s)
     \<lparr>totalQuantums := totalQuantums s + 1, itimer := Some (quantum_timer (quantumUsecs s))\<rparr>"

definition switched :: "call_site \<Rightarrow> machine \<Rightarrow> machine" where
  "switched site s = count_quantum (pick_next (save_context site (put_back
     (s\<lparr>sigmask := insert SIGVTALRM (sigmask s)\<rparr>))))"

text \<open>What the switch does to one thread of the table.\<close>

definition switch_thread :: "call_site \<Rightarrow> machine \<Rightarrow> int \<Rightarrow> thread \<Rightarrow> thread" where
  "switch_thread site s t th =
     (let a = (if t = currentTid s \<and> requeues s then setState READY th else th);
          b = (if t = currentTid s
               then saveEnv (Env_switch site (insert SIGVTALRM (sigmask s))) a else a);
          c = (if t = next_tid s \<and> next_queue s \<noteq> [] then setState RUNNING b else b)
      in if t = next_tid s then inc c else c)"

lemma put_back_frame [simp, frame_simps]:
  "readyQueue (put_back s) = next_queue s" "currentTid (put_back s) = currentTid s"
  "threads (put_back s) = threads s" "failing (put_back s) = failing s"
  "sigmask (put_back s) = sigmask s" "quantumUsecs (put_back s) = quantumUsecs s"
  "totalQuantums (put_back s) = totalQuantums s" "tids (put_back s) = tids s"
  "sleepingThreads (put_back s) = sleepingThreads s" "guard (put_back s) = guard s"
  "pendingDeletionTid (put_back s) = pendingDeletionTid s"
  "live_stacks (put_back s) = live_stacks s" "cerr (put_back s) = cerr s"
  "handler_installed (put_back s) = handler_installed s"
  by (simp_all add: put_back_def next_queue_def)

lemma save_context_frame [simp, frame_simps]:
  "readyQueue (save_context a s) = readyQueue s" "currentTid (save_context a s) = currentTid s"
  "threads (save_context a s) = threads s" "failing (save_context a s) = failing s"
  "sigmask (save_context a s) = sigmask s" "quantumUsecs (save_context a s) = quantumUsecs s"
  "totalQuantums (save_context a s) = totalQuantums s" "tids (save_context a s) = tids s"
  "sleepingThreads (save_context a s) = sleepingThreads s" "guard (save_context a s) = guard s"
  "pendingDeletionTid (save_context a s) = pendingDeletionTid s"
  "live_stacks (save_context a s) = live_stacks s" "cerr (save_context a s) = cerr s"
  "handler_installed (save_context a s) = handler_installed s"
  by (simp_all add: save_context_def)

lemma pick_next_frame [simp, frame_simps]:
  "readyQueue (pick_next s) = tl (readyQueue s)"
  "currentTid (pick_next s) = (if readyQueue s = [] then currentTid s else hd (readyQueue s))"
  "threads (pick_next s) = threads s" "failing (pick_next s) = failing s"
  "sigmask (pick_next s) = sigmask s" "quantumUsecs (pick_next s) = quantumUsecs s"
  "totalQuantums (pick_next s) = totalQuantums s" "tids (pick_next s) = tids s"
  "sleepingThreads (pick_next s) = sleepingThreads s" "guard (pick_next s) = guard s"
  "pendingDeletionTid (pick_next s) = pendingDeletionTid s"
  "live_stacks (pick_next s) = live_stacks s" "cerr (pick_next s) = cerr s"
  "handler_installed (pick_next s) = handler_installed s"
  by (simp_all add: pick_next_def)

lemma mask_next [simp]:
  "requeues (s\<lparr>sigmask := m\<rparr>) = requeues s" "next_queue (s\<lparr>sigmask := m\<rparr>) = next_queue s"
  "next_tid (s\<lparr>sigmask := m\<rparr>) = next_tid s"
  by (simp_all add: requeues_def next_queue_def next_tid_def)

lemma switched_frame [simp, frame_simps]:
  "readyQueue (switched a s) = tl (next_queue s)" "currentTid (switched a s) = next_tid s"
  "threads (switched a s) = threads s" "failing (switched a s) = failing s"
  "sigmask (switched a s) = insert SIGVTALRM (sigmask s)"
  "quantumUsecs (switched a s) = quantumUsecs s"
  "totalQuantums (switched a s) = totalQuantums s + 1" "tids (switched a s) = tids s"
  "sleepingThreads (switched a s) = sleepingThreads s" "guard (switched a s) = guard s"
  "pendingDeletionTid (switched a s) = pendingDeletionTid s"
  "live_stacks (switched a s) = live_stacks s" "cerr (switched a s) = cerr s"
  "handler_installed (switched a s) = handler_installed s"
  "itimer (switched a s) = Some (quantum_timer (quantumUsecs s))"
  by (simp_all add: switched_def count_quantum_def next_tid_def)

lemma owned_put_back [simp]: "owned s \<Longrightarrow> owned (put_back s)"
  by (simp add: put_back_def)

lemma owned_save_context [simp]: "owned s \<Longrightarrow> owned (save_context a s)"
  by (simp add: save_context_def)

lemma owned_pick_next [simp]: "owned s \<Longrightarrow> owned (pick_next s)"
  by (simp add: pick_next_def)

lemma owned_switched [simp]: "owned s \<Longrightarrow> owned (switched a s)"
  by (simp add: switched_def count_quantum_def)

lemma table_switched:
  assumes "owned s"
  shows "table (switched site s) t = map_option (switch_thread site s t) (table s t)"
  using assms
  by (cases "table s t")
    (auto simp: switched_def count_quantum_def pick_next_def save_context_def put_back_def
      switch_thread_def next_tid_def next_queue_def Let_def)

text \<open>
  The switch evaluated: it always leaves by the jump into the context of the next thread.
\<close>

lemma next_tid_in: "next_queue s \<noteq> [] \<Longrightarrow> next_tid s \<in> insert (currentTid s) (set (readyQueue s))"
  using hd_in_set [of "next_queue s"]
  by (cases "requeues s") (simp_all add: next_tid_def next_queue_def hd_append)

lemma next_tid_cases: "next_tid s = currentTid s \<or> next_tid s \<in> set (readyQueue s)"
  using next_tid_in [of s] by (auto simp: next_tid_def)

lemma doContextSwitch_eval:
  assumes os: "failing s = []" "0 \<le> quantumUsecs s"
    and own: "owned s" and cur: "currentTid s \<in> tids s" and rdy: "set (readyQueue s) \<subseteq> tids s"
    and fits: "int_ok (totalQuantums s + 1)"
    and nxt: "table s (next_tid s) = Some n" "int_ok (quantumCount n + 1)"
    and sw: "e = env (switch_thread site s (next_tid s) n)" "e \<noteq> Env_zero"
  shows "doContextSwitch site s = Stop (Jump e) ((switched site s)\<lparr>sigmask := saved_mask e\<rparr>)"
proof -
  let ?a = "s\<lparr>sigmask := insert SIGVTALRM (sigmask s)\<rparr>"
  let ?b = "save_context site (put_back ?a)"
  let ?c = "pick_next ?b"
  obtain c where c: "table s (currentTid s) = Some c"
    using own cur by (auto simp: owned_table)
  have own': "owned ?a" "owned (put_back ?a)" "owned ?b" "owned ?c"
    using own by simp_all
  have pb: "cond (\<lambda>s. currentTid s \<noteq> pendingDeletionTid s \<and> 1 < length (threads s))
        (stmts [reads (\<lambda>s. on_thread (currentTid s) (setState READY)),
                reads (\<lambda>s. push_ready (currentTid s))] (ret ())) (ret ()) ?a
      = Done () (put_back ?a)"
    using c by (simp add: act_simps put_back_def requeues_def)
  obtain c' where "table (put_back ?a) (currentTid s) = Some c'"
    using c own by (cases "requeues s") (simp_all add: put_back_def)
  then have sc: "on_thread (currentTid s) (saveEnv (Env_switch site (insert SIGVTALRM (sigmask s))))
      (put_back ?a) = Done () ?b"
    by (simp add: act_simps save_context_def)
  have pn: "cond (\<lambda>s. \<not> q_empty (readyQueue s))
        (stmts [modify (\<lambda>s. s\<lparr>readyQueue := q_pop (readyQueue s),
                              currentTid := q_front (readyQueue s)\<rparr>),
                reads (\<lambda>s. on_thread (currentTid s) (setState RUNNING))] (ret ())) (ret ()) ?b
      = Done () ?c"
  proof (cases "next_queue s = []")
    case True
    then show ?thesis by (simp add: act_simps pick_next_def q_empty_def)
  next
    case False
    then have "hd (next_queue s) \<in> tids ?b"
      using next_tid_in [of s] cur rdy by (auto simp: next_tid_def)
    then obtain h where "table ?b (hd (next_queue s)) = Some h"
      using own'(3) owned_table by blast
    with False show ?thesis
      by (simp add: act_simps pick_next_def q_empty_def q_pop_def q_front_def)
  qed
  have tc: "map_option inc (table ?c (next_tid s)) = Some (switch_thread site s (next_tid s) n)"
    using table_switched [OF own, of site "next_tid s"] nxt own'(4)
    by (simp add: switched_def count_quantum_def next_tid_def split: if_splits)
  then obtain k where k: "table ?c (next_tid s) = Some k"
      "inc k = switch_thread site s (next_tid s) n"
    by auto
  have "quantumCount k = quantumCount n"
    using arg_cong [OF k(2), where f = quantumCount]
    by (simp add: switch_thread_def inc_def Let_def)
  then have ci: "bnd (threads_at (next_tid s)) (\<lambda>p. call_method p incrementQuantumCount) ?c
      = Done () (upd_th (next_tid s) inc ?c)"
    using k(1) nxt(2) by (simp add: call_inc_ok)
  have cur': "currentTid ?c = next_tid s" by (simp add: next_tid_def)
  have fin: "table (switched site s) (next_tid s) = Some (switch_thread site s (next_tid s) n)"
    using table_switched [OF own] nxt(1) by simp
  let ?d = "upd_th (next_tid s) inc ?c"
  have blk: "blockTimerSignal s = Done () ?a"
    using os by (simp add: blockTimerSignal_ok)
  have sc': "reads (\<lambda>s. on_thread (currentTid s) (saveEnv (Env_switch site (sigmask s))))
      (put_back ?a) = Done () ?b"
    using sc by (simp add: reads_apply)
  have ci': "reads (\<lambda>s. bnd (threads_at (currentTid s)) (\<lambda>p. call_method p incrementQuantumCount))
      ?c = Done () ?d"
    using ci cur' by (simp add: reads_apply)
  have tq: "reads (\<lambda>s. case add_int (totalQuantums s) 1 of None \<Rightarrow> leave (Fault Int_overflow)
      | Some n \<Rightarrow> modify (\<lambda>s. s\<lparr>totalQuantums := n\<rparr>)) ?d
      = Done () (?d\<lparr>totalQuantums := totalQuantums s + 1\<rparr>)"
    using fits by (simp add: act_simps)
  have st: "setupTimer (?d\<lparr>totalQuantums := totalQuantums s + 1\<rparr>) = Done () (switched site s)"
    using os cur' by (simp add: setupTimer_ok switched_def count_quantum_def)
  have jmp: "reads (\<lambda>s. bnd (ask_thread (currentTid s) getEnv) siglongjmp) (switched site s)
      = Stop (Jump e) ((switched site s)\<lparr>sigmask := saved_mask e\<rparr>)"
    using fin sw by (simp add: act_simps)
  show ?thesis
    unfolding doContextSwitch_def
    by (simp only: stmts_step blk pb sc' pn ci' tq st jmp stmts.simps(1) outcome.case)
qed

subsection \<open>The memory invariant\<close>

lemma switch_thread_fixed [simp]:
  "thread_id (switch_thread site s t th) = thread_id th"
  "stack (switch_thread site s t th) = stack th"
  "didUserBlock (switch_thread site s t th) = didUserBlock th"
  by (simp_all add: switch_thread_def setState_def inc_def Let_def)

text \<open>Changing threads in place keeps the memory invariant if IDs and stacks stay.\<close>

lemma stacks_ok_map:
  assumes "stacks_ok s" and tb: "\<And>t. table s' t = map_option (g t) (table s t)"
    and "\<And>t th. thread_id (g t th) = thread_id th" and st: "\<And>t th. stack (g t th) = stack th"
    and "live_stacks s' = live_stacks s"
  shows "stacks_ok s'"
proof -
  have "(\<exists>t th. table s' t = Some th \<and> t \<noteq> 0 \<and> stack th = b)
      \<longleftrightarrow> (\<exists>t th. table s t = Some th \<and> t \<noteq> 0 \<and> stack th = b)" for b
  proof -
    have "(\<exists>t th. map_option (g t) (table s t) = Some th \<and> t \<noteq> 0 \<and> stack th = b)
        \<longleftrightarrow> (\<exists>t z. table s t = Some z \<and> t \<noteq> 0 \<and> stack (g t z) = b)"
      by blast
    then show ?thesis by (simp add: tb st)
  qed
  then show ?thesis
    using assms unfolding stacks_ok_def by auto
qed
lemma stacks_ok_upd_th:
  assumes "owned s" "stacks_ok s" "\<And>th. thread_id (f th) = thread_id th" "\<And>th. stack (f th) = stack th"
  shows "stacks_ok (upd_th t f s)"
  by (rule stacks_ok_map [where g = "\<lambda>u. if u = t then f else id", OF assms(2)])
    (use assms in \<open>auto simp: option.map_id\<close>)

lemma stacks_ok_switched: "owned s \<Longrightarrow> stacks_ok s \<Longrightarrow> stacks_ok (switched site s)"
  by (rule stacks_ok_map [where g = "switch_thread site s"]) (simp_all add: table_switched)

lemma stacks_ok_frame [simp, frame_simps]:
  "stacks_ok (s\<lparr>readyQueue := q\<rparr>) = stacks_ok s" "stacks_ok (s\<lparr>quantumUsecs := i\<rparr>) = stacks_ok s"
  "stacks_ok (s\<lparr>totalQuantums := i\<rparr>) = stacks_ok s" "stacks_ok (s\<lparr>currentTid := i\<rparr>) = stacks_ok s"
  "stacks_ok (s\<lparr>pendingDeletionTid := i\<rparr>) = stacks_ok s"
  "stacks_ok (s\<lparr>sigmask := g\<rparr>) = stacks_ok s" "stacks_ok (s\<lparr>sleepingThreads := m\<rparr>) = stacks_ok s"
  "stacks_ok (s\<lparr>handler_installed := b\<rparr>) = stacks_ok s" "stacks_ok (s\<lparr>itimer := v\<rparr>) = stacks_ok s"
  "stacks_ok (s\<lparr>cerr := e\<rparr>) = stacks_ok s" "stacks_ok (s\<lparr>failing := fl\<rparr>) = stacks_ok s"
  by (simp_all add: stacks_ok_def)

subsection \<open>Deleting a thread\<close>

definition drop_thread :: "int \<Rightarrow> machine \<Rightarrow> machine" where
  "drop_thread t s = (case um_find (threads s) t of None \<Rightarrow> s | Some p \<Rightarrow>
     (case um_find (heap s) p of None \<Rightarrow> s | Some th \<Rightarrow>
        s\<lparr>heap := um_erase p (heap s), threads := um_erase t (threads s),
          live_stacks := filter (\<lambda>b. b \<noteq> stack th) (live_stacks s)\<rparr>))"

lemma drop_thread_frame [simp, frame_simps]:
  "readyQueue (drop_thread t s) = readyQueue s" "currentTid (drop_thread t s) = currentTid s"
  "failing (drop_thread t s) = failing s" "sigmask (drop_thread t s) = sigmask s"
  "quantumUsecs (drop_thread t s) = quantumUsecs s"
  "totalQuantums (drop_thread t s) = totalQuantums s"
  "sleepingThreads (drop_thread t s) = sleepingThreads s" "guard (drop_thread t s) = guard s"
  "pendingDeletionTid (drop_thread t s) = pendingDeletionTid s" "cerr (drop_thread t s) = cerr s"
  "handler_installed (drop_thread t s) = handler_installed s" "itimer (drop_thread t s) = itimer s"
  "sleepers (drop_thread t s) = sleepers s"
  by (simp_all add: drop_thread_def sleepers_def split: option.splits)

lemma tids_drop_thread [simp]:
  assumes "owned s"
  shows "tids (drop_thread t s) = tids s - {t}"
proof (cases "um_find (threads s) t")
  case None
  then show ?thesis by (simp add: drop_thread_def tids_def um.keys_find)
next
  case (Some p)
  then obtain th where "um_find (heap s) p = Some th"
    using assms owned_heap by blast
  with Some show ?thesis by (simp add: drop_thread_def tids_def)
qed

lemma table_drop_thread [simp]:
  assumes "owned s"
  shows "table (drop_thread t s) = (table s)(t := None)"
proof
  fix u
  have "um_find (threads s) u = Some p \<Longrightarrow> um_find (threads s) t = Some p \<Longrightarrow> u = t" for p
    using assms by (auto simp: owned_def)
  then show "table (drop_thread t s) u = ((table s)(t := None)) u"
    by (auto simp: drop_thread_def table_def split: option.splits)
qed

lemma owned_drop_thread [simp]:
  assumes "owned s"
  shows "owned (drop_thread t s)"
proof (cases "um_find (threads s) t")
  case None
  with assms show ?thesis by (simp add: drop_thread_def)
next
  case (Some p)
  then obtain th where th: "um_find (heap s) p = Some th"
    using assms owned_heap by blast
  have only: "um_find (threads s) u = Some p \<Longrightarrow> u = t" for u
    using Some assms by (auto simp: owned_def)
  have rest: "\<forall>q \<in> um_keys (heap s) - {p}. \<exists>u. u \<noteq> t \<and> um_find (threads s) u = Some q"
    using assms Some unfolding owned_def by (metis Diff_iff insertI1 option.inject)
  have tab: "threads (drop_thread t s) = um_erase t (threads s)"
    "heap (drop_thread t s) = um_erase p (heap s)"
    "sleepingThreads (drop_thread t s) = sleepingThreads s"
    using Some th by (simp_all add: drop_thread_def)
  show ?thesis
    using assms rest only unfolding owned_def tab by (auto split: if_splits)
qed

lemma stacks_ok_drop_thread:
  assumes own: "owned s" and st: "stacks_ok s"
  shows "stacks_ok (drop_thread t s)"
proof (cases "table s t")
  case None
  then have "drop_thread t s = s"
    by (simp add: drop_thread_def table_def split: option.splits)
  with st show ?thesis by simp
next
  case (Some th)
  have live: "live_stacks (drop_thread t s) = filter (\<lambda>b. b \<noteq> stack th) (live_stacks s)"
    using Some by (auto simp: drop_thread_def table_def split: option.splits)
  have mine: "table s u = Some uh \<Longrightarrow> stack uh = stack th \<longleftrightarrow> u = t" for u uh
    using st Some unfolding stacks_ok_def by (metis option.inject)
  have "b \<in> set (live_stacks (drop_thread t s))
      \<longleftrightarrow> (\<exists>u uh. table (drop_thread t s) u = Some uh \<and> u \<noteq> 0 \<and> stack uh = b)" for b
    using st own mine unfolding stacks_ok_def live by (auto split: if_splits)
  with st own show ?thesis
    unfolding stacks_ok_def by (auto split: if_splits)
qed
lemma mem_inv_drop_thread: "mem_inv s \<Longrightarrow> mem_inv (drop_thread t s)"
  by (simp add: mem_inv_def stacks_ok_drop_thread)

lemma delete_thread_eval:
  assumes "mem_inv s" and "t \<in> tids s" and "t \<noteq> 0"
  shows "bnd (threads_at t) delete_thread s
    = Done () ((drop_thread t s)\<lparr>threads := threads s\<rparr>)"
    and "threads (drop_thread t s) = um_erase t (threads s)"
proof -
  obtain th where th: "table s t = Some th"
    using assms by (auto simp: mem_inv_def owned_table)
  then obtain p where p: "um_find (threads s) t = Some p" "um_find (heap s) p = Some th"
    by (rule table_SomeE)
  have "p \<noteq> 0"
    using p assms(1) by (auto simp: mem_inv_def owned_def um.keys_find)
  moreover have "thread_id th = t" "stack th \<noteq> 0" "stack th \<in> set (live_stacks s)"
    using assms th by (auto simp: mem_inv_def stacks_ok_def)
  ultimately show "bnd (threads_at t) delete_thread s
      = Done () ((drop_thread t s)\<lparr>threads := threads s\<rparr>)"
    using p assms(3)
    by (simp add: act_simps delete_thread_def Thread_destruct_def drop_thread_def)
  show "threads (drop_thread t s) = um_erase t (threads s)"
    using p by (simp add: drop_thread_def)
qed

subsection \<open>Behind the jump\<close>

definition reaped :: "machine \<Rightarrow> machine" where
  "reaped s = (if pendingDeletionTid s = -1 then s
     else (drop_thread (pendingDeletionTid s) s)\<lparr>pendingDeletionTid := -1\<rparr>)"

definition landed :: "call_site \<Rightarrow> machine \<Rightarrow> machine" where
  "landed site s = (reaped s)\<lparr>sigmask := (case site of From_timer m \<Rightarrow> m
                                         | _ \<Rightarrow> sigmask s - {SIGVTALRM})\<rparr>"

lemma reaped_frame [simp, frame_simps]:
  "readyQueue (reaped s) = readyQueue s" "currentTid (reaped s) = currentTid s"
  "failing (reaped s) = failing s" "sigmask (reaped s) = sigmask s"
  "quantumUsecs (reaped s) = quantumUsecs s" "totalQuantums (reaped s) = totalQuantums s"
  "sleepingThreads (reaped s) = sleepingThreads s" "guard (reaped s) = guard s"
  "pendingDeletionTid (reaped s) = -1" "cerr (reaped s) = cerr s"
  "handler_installed (reaped s) = handler_installed s" "itimer (reaped s) = itimer s"
  "sleepers (reaped s) = sleepers s"
  by (simp_all add: reaped_def)

lemma switch_return_eval:
  assumes "failing s = []" and "mem_inv s"
    and "pendingDeletionTid s = -1 \<or> pendingDeletionTid s \<in> tids s \<and> pendingDeletionTid s \<noteq> 0"
  shows "switch_return s = Done () ((reaped s)\<lparr>sigmask := sigmask s - {SIGVTALRM}\<rparr>)"
proof (cases "pendingDeletionTid s = -1")
  case True
  then show ?thesis
    using assms(1) by (simp add: switch_return_def act_simps reaped_def)
next
  case False
  with assms have p: "pendingDeletionTid s \<in> tids s" "pendingDeletionTid s \<noteq> 0"
    by auto
  note del = delete_thread_eval [OF assms(2) p]
  have "reads (\<lambda>s. bnd (threads_at (pendingDeletionTid s)) delete_thread) s
      = Done () ((drop_thread (pendingDeletionTid s) s)\<lparr>threads := threads s\<rparr>)"
    using del(1) by (simp add: reads_apply)
  then show ?thesis
    using False assms(1) del(2)
    by (simp add: switch_return_def cond_apply bnd_apply [of "cond _ _ _"]
        bnd_apply [of "reads _"] modify_apply bnd_apply [of "modify _"] ret_apply
        bnd_apply [of unblockTimerSignal] unblockTimerSignal_ok reaped_def)
qed

lemma arrive_switch:
  assumes "failing s = []" and "mem_inv s"
    and "pendingDeletionTid s = -1 \<or> pendingDeletionTid s \<in> tids s \<and> pendingDeletionTid s \<noteq> 0"
  shows "arrive (Env_switch site m) s = Goes (Comes_back site) (landed site s)"
  using switch_return_eval [OF assms] by (simp add: landed_def split: call_site.splits)

end
