(* ===== verification/Invariant.thy ===== *)
theory Invariant
  imports Eval
begin

section \<open>The scheduler's invariant\<close>

text \<open>
  What the functions of the scheduler keep true between calls: the memory invariant, one running
  thread, a ready queue of existing threads, a reason for every thread that is not in the queue,
  and the main thread always running or ready.
\<close>

text \<open>
  The context of a thread that gave itself up in \<open>terminate\<close>.  Such a thread stays in the table
  until some later switch deletes it; it must never run again.
\<close>

definition terminated :: "thread \<Rightarrow> bool" where
  "terminated th = (case env th of Env_switch From_terminate _ \<Rightarrow> True | _ \<Rightarrow> False)"

text \<open>A context that can be jumped to, and that runs with the timer signal unblocked.\<close>

fun env_ok :: "jmp_env \<Rightarrow> bool" where
  "env_ok Env_zero = False"
| "env_ok (Env_entry _ _ m) = (SIGVTALRM \<notin> m)"
| "env_ok (Env_switch (From_timer m) _) = (SIGVTALRM \<notin> m)"
| "env_ok (Env_switch _ _) = True"

text \<open>A thread that is not running.\<close>

definition waiting_ok :: "machine \<Rightarrow> int \<Rightarrow> thread \<Rightarrow> bool" where
  "waiting_ok s t th \<longleftrightarrow> env_ok (env th) \<and> state th \<noteq> RUNNING
     \<and> (state th = READY \<longrightarrow> t \<in> set (readyQueue s) \<or> terminated th)
     \<and> (state th = BLOCKED \<longrightarrow> t \<notin> set (readyQueue s) \<and> (didUserBlock th \<or> t \<in> sleepers s))
     \<and> (terminated th \<longrightarrow> t \<notin> set (readyQueue s) \<and> t \<notin> sleepers s)"

text \<open>The part that holds inside a call too, whatever the state of the running thread.\<close>

definition shape :: "machine \<Rightarrow> bool" where
  "shape s \<longleftrightarrow> mem_inv s \<and> failing s = [] \<and> 0 < quantumUsecs s \<and> handler_installed s
     \<and> 1 \<le> totalQuantums s
     \<and> tids s \<subseteq> {0..<MAX_THREAD_NUM}
     \<and> currentTid s \<in> tids s \<and> set (readyQueue s) \<subseteq> tids s \<and> sleepers s \<subseteq> tids s - {0}
     \<and> (currentTid s = 0 \<or> 0 \<in> set (readyQueue s))
     \<and> (\<forall>t th. table s t = Some th \<longrightarrow> 0 \<le> quantumCount th \<and> quantumCount th \<le> totalQuantums s)
     \<and> (\<forall>t th. table s t = Some th \<longrightarrow> t \<noteq> currentTid s \<longrightarrow> waiting_ok s t th)"

definition pend_ok :: "machine \<Rightarrow> bool" where
  "pend_ok s \<longleftrightarrow> pendingDeletionTid s = -1
     \<or> (pendingDeletionTid s \<noteq> 0 \<and> pendingDeletionTid s \<noteq> currentTid s
        \<and> (\<exists>th. table s (pendingDeletionTid s) = Some th \<and> terminated th))"

definition sched_inv :: "machine \<Rightarrow> bool" where
  "sched_inv s \<longleftrightarrow> shape s \<and> pend_ok s
     \<and> (\<exists>th. table s (currentTid s) = Some th \<and> state th = RUNNING)"

lemma sched_invD:
  assumes "sched_inv s"
  shows "shape s" "pend_ok s" "mem_inv s" "owned s" "stacks_ok s" "failing s = []"
    "0 < quantumUsecs s" "handler_installed s" "1 \<le> totalQuantums s"
    "tids s \<subseteq> {0..<MAX_THREAD_NUM}" "currentTid s \<in> tids s" "set (readyQueue s) \<subseteq> tids s"
    "sleepers s \<subseteq> tids s - {0}" "currentTid s = 0 \<or> 0 \<in> set (readyQueue s)"
  using assms by (simp_all add: sched_inv_def shape_def mem_inv_def)

lemma sched_inv_current:
  assumes "sched_inv s"
  obtains th where "table s (currentTid s) = Some th" and "state th = RUNNING"
  using assms by (auto simp: sched_inv_def)

lemma shape_waiting:
  "shape s \<Longrightarrow> table s t = Some th \<Longrightarrow> t \<noteq> currentTid s \<Longrightarrow> waiting_ok s t th"
  by (simp add: shape_def)

lemma shape_quantum:
  "shape s \<Longrightarrow> table s t = Some th \<Longrightarrow> 0 \<le> quantumCount th \<and> quantumCount th \<le> totalQuantums s"
  unfolding shape_def by blast

lemma shape_fields:
  assumes "shape s"
  shows "mem_inv s" "owned s" "stacks_ok s" "failing s = []" "0 < quantumUsecs s"
    "handler_installed s" "1 \<le> totalQuantums s" "tids s \<subseteq> {0..<MAX_THREAD_NUM}"
    "currentTid s \<in> tids s" "set (readyQueue s) \<subseteq> tids s" "sleepers s \<subseteq> tids s - {0}"
    "currentTid s = 0 \<or> 0 \<in> set (readyQueue s)"
  using assms by (simp_all add: shape_def mem_inv_def)

lemma main_exists: "shape s \<Longrightarrow> 0 \<in> tids s"
  by (auto simp: shape_def)

lemma current_valid: "shape s \<Longrightarrow> 0 \<le> currentTid s \<and> currentTid s < MAX_THREAD_NUM"
  by (auto simp: shape_def)

lemma pend_in_tids:
  "owned s \<Longrightarrow> pend_ok s \<Longrightarrow> pendingDeletionTid s = -1 \<or>
     pendingDeletionTid s \<in> tids s \<and> pendingDeletionTid s \<noteq> 0"
  by (auto simp: pend_ok_def owned_table)

subsection \<open>What a switch may start from\<close>

text \<open>
  The states in which the functions call \<open>doContextSwitch\<close>.  Either the running thread has just
  made itself the pending deletion, and then something else is ready and nothing can bring the
  thread back; or it goes on living.
\<close>

definition switchable :: "call_site \<Rightarrow> machine \<Rightarrow> bool" where
  "switchable site s \<longleftrightarrow> shape s \<and> totalQuantums s < INT_MAX
     \<and> (case site of From_timer m \<Rightarrow> SIGVTALRM \<notin> m | _ \<Rightarrow> True)
     \<and> (if site = From_terminate
        then pendingDeletionTid s = currentTid s \<and> currentTid s \<noteq> 0 \<and> readyQueue s \<noteq> []
             \<and> currentTid s \<notin> set (readyQueue s) \<and> currentTid s \<notin> sleepers s
             \<and> (\<exists>th. table s (currentTid s) = Some th \<and> state th = READY)
        else pend_ok s
             \<and> (next_queue s = [] \<longrightarrow>
                  (\<exists>th. table s (currentTid s) = Some th \<and> state th = RUNNING)))"

lemma size_threads: "owned s \<Longrightarrow> length (threads s) = card (tids s)"
  by (simp add: owned_def tids_def um_size_keys)

lemma alone:
  assumes "owned s" and "currentTid s \<in> tids s" and "\<not> length (threads s) > 1"
  shows "tids s = {currentTid s}"
proof -
  have "finite (tids s)" by (simp add: tids_def)
  then have "card (tids s) > 0" using assms(2) by (auto simp: card_gt_0_iff)
  with assms(1,3) have "card (tids s) = 1" by (simp add: size_threads)
  then show ?thesis using assms(2) by (auto simp: card_1_singleton_iff)
qed

lemma requeues_iff:
  assumes "switchable site s"
  shows "requeues s \<longleftrightarrow> site \<noteq> From_terminate \<and> tids s \<noteq> {currentTid s}"
proof -
  have f: "owned s" "currentTid s \<in> tids s"
    using assms by (auto simp: switchable_def dest: shape_fields)
  have "length (threads s) > 1 \<longleftrightarrow> tids s \<noteq> {currentTid s}"
    using alone [OF f] size_threads [OF f(1)] by auto
  moreover have "currentTid s \<noteq> -1"
    using assms current_valid [of s] by (auto simp: switchable_def)
  ultimately show ?thesis
    using assms by (auto simp: switchable_def requeues_def pend_ok_def split: if_splits)
qed

lemma switchableD:
  assumes "switchable site s"
  shows "shape s" "totalQuantums s < INT_MAX" "owned s" "mem_inv s" "stacks_ok s" "failing s = []"
    "0 < quantumUsecs s"
  using assms by (auto simp: switchable_def dest: shape_fields)

text \<open>The queue the next thread is taken from, seen through its elements.\<close>

lemma set_next_queue:
  "set (next_queue s) = set (readyQueue s) \<union> (if requeues s then {currentTid s} else {})"
  by (simp add: next_queue_def)

lemma in_next_queue:
  "next_queue s \<noteq> [] \<Longrightarrow>
     x \<in> set (next_queue s) \<longleftrightarrow> x = next_tid s \<or> x \<in> set (tl (next_queue s))"
  by (cases "next_queue s") (auto simp: next_tid_def)

lemma next_tid_exists: "shape s \<Longrightarrow> next_tid s \<in> tids s"
  using next_tid_cases [of s] shape_fields(9,10) by auto

lemma next_tid_not_pending:
  assumes "switchable site s"
  shows "next_tid s \<noteq> pendingDeletionTid s"
proof (cases "site = From_terminate")
  case True
  then have "\<not> requeues s" "readyQueue s \<noteq> []" "pendingDeletionTid s \<notin> set (readyQueue s)"
    using assms by (simp_all add: switchable_def requeues_def)
  then show ?thesis 
    by (cases "readyQueue s") (auto simp: next_tid_def next_queue_def)
next
  case False
  then have p: "pend_ok s" and sh: "shape s" using assms by (simp_all add: switchable_def)
  have "next_tid s \<in> tids s" by (rule next_tid_exists [OF sh])
  show ?thesis
  proof
    assume eq: "next_tid s = pendingDeletionTid s"
    have "next_tid s \<noteq> -1"
      using next_tid_exists [OF sh] shape_fields(8) [OF sh] by auto
    with p eq obtain th where "pendingDeletionTid s \<noteq> currentTid s"
      "table s (pendingDeletionTid s) = Some th" "terminated th"
      by (auto simp: pend_ok_def)
    with shape_waiting [OF sh, of "pendingDeletionTid s" th] next_tid_cases [of s] eq
    show False by (auto simp: waiting_ok_def)
  qed
qed

lemma main_stays:
  assumes "switchable site s"
  shows "next_tid s = 0 \<or> 0 \<in> set (tl (next_queue s))"
proof (cases "next_queue s = []")
  case True
  then have "readyQueue s = []" "next_tid s = currentTid s"
    by (auto simp: next_queue_def next_tid_def split: if_splits)
  then show ?thesis using shape_fields(12) [OF switchableD(1) [OF assms]] by simp
next
  case False
  have "0 \<in> set (next_queue s) \<or> (currentTid s = 0 \<and> \<not> requeues s)"
    using shape_fields(12) [OF switchableD(1) [OF assms]] by (auto simp: set_next_queue)
  then show ?thesis
  proof
    assume "0 \<in> set (next_queue s)"
    then show ?thesis using in_next_queue [OF False] by auto
  next
    assume a: "currentTid s = 0 \<and> \<not> requeues s"
    have "site \<noteq> From_terminate" using assms a by (simp add: switchable_def split: if_splits)
    then have "tids s = {currentTid s}" using requeues_iff [OF assms] a by simp
    then show ?thesis using next_tid_exists [OF switchableD(1) [OF assms]] a by simp
  qed
qed

lemma waiting_switched:
  assumes sw: "switchable site s" and th: "table s t = Some th" and t: "t \<noteq> next_tid s"
  shows "waiting_ok (switched site s) t (switch_thread site s t th)"
proof (cases "t = currentTid s")
  case False
  have w: "waiting_ok s t th"
    by (rule shape_waiting [OF switchableD(1) [OF sw] th False])
  have "switch_thread site s t th = th"
    using False t by (simp add: switch_thread_def)
  moreover have "t \<in> set (tl (next_queue s)) \<longleftrightarrow> t \<in> set (readyQueue s)"
  proof (cases "next_queue s = []")
    case True
    then show ?thesis by (simp add: next_queue_def split: if_splits)
  next
    case ne: False
    have "t \<in> set (next_queue s) \<longleftrightarrow> t \<in> set (readyQueue s)"
      using False by (simp add: set_next_queue)
    then show ?thesis using in_next_queue [OF ne] t by simp
  qed
  ultimately show ?thesis
    using w by (simp add: waiting_ok_def sleepers_def)
next
  case True
  show ?thesis
  proof (cases "site = From_terminate")
    case gone: True
    have ts: "currentTid s \<notin> set (readyQueue s)" "currentTid s \<notin> sleepers s" "state th = READY"
      "\<not> requeues s"
      using sw th True gone by (auto simp: switchable_def requeues_def)
    then have "currentTid s \<notin> set (tl (next_queue s))"
      by (cases "readyQueue s") (auto simp: next_queue_def)
    with ts show ?thesis
      using True t gone by (simp add: waiting_ok_def switch_thread_def terminated_def sleepers_def)
  next
    case live: False
    have rq: "requeues s"
    proof (rule ccontr)
      assume "\<not> requeues s"
      then have "tids s = {currentTid s}" using requeues_iff [OF sw] live by simp
      then show False using next_tid_exists [OF switchableD(1) [OF sw]] True t by simp
    qed
    then have "currentTid s \<in> set (tl (next_queue s))"
      using True t by (cases "readyQueue s") (auto simp: next_queue_def next_tid_def)
    moreover have "env_ok (Env_switch site m)" for m
      using sw by (cases site) (simp_all add: switchable_def)
    moreover have "\<not> terminated (th\<lparr>state := READY, env := Env_switch site m\<rparr>)" for m
      using live by (cases site) (simp_all add: terminated_def)
    ultimately show ?thesis
      using True t rq by (simp add: waiting_ok_def switch_thread_def setState_def Let_def)
  qed
qed

text \<open>The context jumped to is alive: saved, not that of a thread that has terminated.\<close>

lemma next_env:
  assumes sw: "switchable site s" and th: "table s (next_tid s) = Some th"
  shows "env_ok (env (switch_thread site s (next_tid s) th))"
    and "\<not> terminated (switch_thread site s (next_tid s) th)"
    and "int_ok (quantumCount th + 1)"
proof -
  have sh: "shape s" by (rule switchableD [OF sw])
  show "int_ok (quantumCount th + 1)"
    using shape_quantum [OF sh th] switchableD(2) [OF sw] by (intro int_okI) auto
  let ?e = "env (switch_thread site s (next_tid s) th)"
  have "env_ok ?e \<and> \<not> terminated (switch_thread site s (next_tid s) th)"
  proof (cases "next_tid s = currentTid s")
    case True
    have "site \<noteq> From_terminate"
    proof
      assume "site = From_terminate"
      then have "currentTid s = pendingDeletionTid s" using sw by (simp add: switchable_def)
      then show False using next_tid_not_pending [OF sw] True by simp
    qed
    then show ?thesis
      using sw True by (cases site)
        (simp_all add: switch_thread_def Let_def inc_def terminated_def setState_def switchable_def)
  next
    case False
    then have "next_tid s \<in> set (readyQueue s)" using next_tid_cases [of s] by simp
    with shape_waiting [OF sh th False] False show ?thesis
      by (simp add: switch_thread_def Let_def inc_def terminated_def setState_def waiting_ok_def)
  qed
  then show "env_ok ?e" "\<not> terminated (switch_thread site s (next_tid s) th)" by simp_all
qed

lemma sched_inv_switched:
  assumes sw: "switchable site s"
  shows "sched_inv (switched site s)"
proof -
  note d = switchableD [OF sw] and f = shape_fields [OF switchableD(1) [OF sw]]
  let ?s = "switched site s"
  have tab: "table ?s t = map_option (switch_thread site s t) (table s t)" for t
    by (rule table_switched [OF d(3)])
  have q: "set (tl (next_queue s)) \<subseteq> tids s"
  proof -
    have "set (next_queue s) \<subseteq> tids s" using f(9,10) by (simp add: set_next_queue)
    then show ?thesis by (cases "next_queue s") auto
  qed
  have "0 \<le> quantumCount (switch_thread site s t th)
      \<and> quantumCount (switch_thread site s t th) \<le> totalQuantums s + 1"
    if "table s t = Some th" for t th
    using shape_quantum [OF d(1) that]
    by (simp add: switch_thread_def Let_def inc_def setState_def)
  moreover have "waiting_ok ?s t (switch_thread site s t th)"
    if "table s t = Some th" "t \<noteq> next_tid s" for t th
    using waiting_switched [OF sw that] .
  ultimately have sh: "shape ?s"
    using f q main_stays [OF sw] next_tid_exists [OF d(1)] stacks_ok_switched [OF d(3,5), of site]
    unfolding shape_def by (auto simp: tab mem_inv_def sleepers_def)
  have po: "pend_ok ?s"
  proof (cases "pendingDeletionTid s = -1")
    case False
    obtain th where th: "table s (pendingDeletionTid s) = Some th"
      "site = From_terminate \<and> pendingDeletionTid s = currentTid s \<or>
       site \<noteq> From_terminate \<and> pendingDeletionTid s \<noteq> currentTid s \<and> terminated th"
      "pendingDeletionTid s \<noteq> 0"
      using sw False by (auto simp: switchable_def pend_ok_def split: if_splits)
    then have "terminated (switch_thread site s (pendingDeletionTid s) th)"
      using next_tid_not_pending [OF sw]
      by (auto simp: switch_thread_def Let_def terminated_def inc_def setState_def)
    with th show ?thesis
      using next_tid_not_pending [OF sw] by (simp add: pend_ok_def tab)
  qed (simp add: pend_ok_def)
  obtain n where n: "table s (next_tid s) = Some n"
    using next_tid_exists [OF d(1)] d(3) by (auto simp: owned_table)
  have "state (switch_thread site s (next_tid s) n) = RUNNING"
  proof (cases "next_queue s = []")
    case True
    then have "next_tid s = currentTid s" "\<not> requeues s" "site \<noteq> From_terminate"
      using sw by (auto simp: next_tid_def next_queue_def switchable_def split: if_splits)
    with sw True n show ?thesis
      by (auto simp: switchable_def switch_thread_def Let_def inc_def)
  qed (simp add: switch_thread_def Let_def inc_def setState_def)
  with sh po n show ?thesis
    by (simp add: sched_inv_def tab)
qed

subsection \<open>Frames and the deletion of the terminated thread\<close>

lemma waiting_ok_cong:
  "readyQueue s' = readyQueue s \<Longrightarrow> sleepers s' = sleepers s \<Longrightarrow>
     waiting_ok s' t th = waiting_ok s t th"
  by (simp add: waiting_ok_def)

lemma sched_inv_frame [simp, frame_simps]:
  "sched_inv (s\<lparr>sigmask := m\<rparr>) = sched_inv s" "sched_inv (s\<lparr>cerr := e\<rparr>) = sched_inv s"
  "shape (s\<lparr>sigmask := m\<rparr>) = shape s" "shape (s\<lparr>cerr := e\<rparr>) = shape s"
  "pend_ok (s\<lparr>sigmask := m\<rparr>) = pend_ok s" "pend_ok (s\<lparr>cerr := e\<rparr>) = pend_ok s"
  by (simp_all add: sched_inv_def shape_def pend_ok_def mem_inv_def waiting_ok_def)

lemma sched_inv_reaped:
  assumes inv: "sched_inv s"
  shows "sched_inv (reaped s)"
proof (cases "pendingDeletionTid s = -1")
  case True
  with inv show ?thesis by (simp add: reaped_def)
next
  case False
  let ?p = "pendingDeletionTid s"
  note d = sched_invD [OF inv]
  obtain th where p: "?p \<noteq> 0" "?p \<noteq> currentTid s" "table s ?p = Some th" "terminated th"
    using d(2) False by (auto simp: pend_ok_def)
  have w: "?p \<notin> set (readyQueue s)" "?p \<notin> sleepers s"
    using shape_waiting [OF d(1) p(3,2)] p(4) by (simp_all add: waiting_ok_def)
  have eq: "reaped s = (drop_thread ?p s)\<lparr>pendingDeletionTid := -1\<rparr>"
    using False by (simp add: reaped_def)
  have "mem_inv (drop_thread ?p s)" by (rule mem_inv_drop_thread [OF d(3)])
  then have "shape (reaped s)"
    using d p w shape_quantum [OF d(1)] shape_waiting [OF d(1)]
    unfolding eq shape_def by (auto simp: mem_inv_def waiting_ok_def sleepers_def)
  moreover obtain c where "table s (currentTid s) = Some c" "state c = RUNNING"
    by (rule sched_inv_current [OF inv])
  ultimately show ?thesis
    using p(2) d(4) by (simp add: sched_inv_def pend_ok_def eq)
qed

subsection \<open>A switch from any admissible state\<close>

text \<open>The state after the switch and the landing, and how the thread switched to continues.\<close>

definition next_context :: "call_site \<Rightarrow> machine \<Rightarrow> jmp_env" where
  "next_context site s = (case table (switched site s) (next_tid s) of
     Some th \<Rightarrow> env th | None \<Rightarrow> Env_zero)"

definition switch_to :: "call_site \<Rightarrow> machine \<Rightarrow> machine" where
  "switch_to site s = (case next_context site s of
     Env_switch b m \<Rightarrow> landed b ((switched site s)\<lparr>sigmask := m\<rparr>)
   | e \<Rightarrow> (switched site s)\<lparr>sigmask := saved_mask e\<rparr>)"

definition continues :: "jmp_env \<Rightarrow> control" where
  "continues e = (case e of Env_entry sp pc _ \<Rightarrow> Starts sp pc | Env_switch b _ \<Rightarrow> Comes_back b
     | Env_zero \<Rightarrow> Returns 0)"

lemma next_context_ok:
  assumes "switchable site s"
  shows "env_ok (next_context site s)" and "next_context site s \<noteq> Env_switch From_terminate m"
proof -
  obtain n where n: "table s (next_tid s) = Some n"
    using next_tid_exists [OF switchableD(1) [OF assms]] switchableD(3) [OF assms]
    by (auto simp: owned_table)
  have "next_context site s = env (switch_thread site s (next_tid s) n)"
    using n by (simp add: next_context_def table_switched [OF switchableD(3) [OF assms]])
  with next_env [OF assms n]
  show "env_ok (next_context site s)" "next_context site s \<noteq> Env_switch From_terminate m"
    by (auto simp: terminated_def)
qed

theorem switch_settles:
  assumes sw: "switchable site s"
  shows "settle (bnd (doContextSwitch site) k s) =
    Goes (continues (next_context site s)) (switch_to site s)"
proof -
  note d = switchableD [OF sw]
  obtain n where n: "table s (next_tid s) = Some n"
    using next_tid_exists [OF d(1)] d(3) by (auto simp: owned_table)
  let ?e = "next_context site s"
  have e: "?e = env (switch_thread site s (next_tid s) n)"
    using n by (simp add: next_context_def table_switched [OF d(3)])
  have nz: "?e \<noteq> Env_zero" using next_context_ok [OF sw] by auto
  have "doContextSwitch site s = Stop (Jump ?e) ((switched site s)\<lparr>sigmask := saved_mask ?e\<rparr>)"
    by (rule doContextSwitch_eval [OF d(6) _ d(3) _ _ _ n next_env(3) [OF sw n] e nz])
      (use d shape_fields [OF d(1)] in \<open>auto intro!: int_okI\<close>)
  then have st: "settle (bnd (doContextSwitch site) k s)
      = arrive ?e ((switched site s)\<lparr>sigmask := saved_mask ?e\<rparr>)"
    by (simp add: bnd_Stop)
  have inv: "sched_inv (switched site s)" by (rule sched_inv_switched [OF sw])
  show ?thesis
  proof (cases ?e)
    case (Env_switch b m)
    have "arrive (Env_switch b m) ((switched site s)\<lparr>sigmask := m\<rparr>)
        = Goes (Comes_back b) (landed b ((switched site s)\<lparr>sigmask := m\<rparr>))"
      by (rule arrive_switch)
        (use sched_invD [OF inv] d(6) pend_in_tids [of "switched site s"] in
          \<open>simp_all add: mem_inv_def\<close>)
    then show ?thesis unfolding st by (simp add: Env_switch switch_to_def continues_def)
  qed (use nz in \<open>simp_all add: st switch_to_def continues_def\<close>)
qed

text \<open>What is true of the state in which the next thread goes on.\<close>

lemma switch_to_inv: "switchable site s \<Longrightarrow> sched_inv (switch_to site s)"
  using sched_inv_switched [of site s] sched_inv_reaped
  by (auto simp: switch_to_def landed_def split: jmp_env.splits)

lemma switch_to_frame [simp, frame_simps]:
  "readyQueue (switch_to site s) = tl (next_queue s)" "currentTid (switch_to site s) = next_tid s"
  "totalQuantums (switch_to site s) = totalQuantums s + 1"
  "sleepingThreads (switch_to site s) = sleepingThreads s"
  "sleepers (switch_to site s) = sleepers s"
  "quantumUsecs (switch_to site s) = quantumUsecs s" "failing (switch_to site s) = failing s"
  "cerr (switch_to site s) = cerr s" "guard (switch_to site s) = guard s"
  "handler_installed (switch_to site s) = handler_installed s"
  "itimer (switch_to site s) = Some (quantum_timer (quantumUsecs s))"
  by (simp_all add: switch_to_def landed_def sleepers_def split: jmp_env.splits)

lemma switch_to_unmasked:
  assumes "switchable site s"
  shows "SIGVTALRM \<notin> sigmask (switch_to site s)"
  using next_context_ok(1) [OF assms]
  by (auto simp: switch_to_def landed_def split: jmp_env.splits call_site.splits)

lemma switch_to_tick_enabled: "switchable site s \<Longrightarrow> tick_enabled (switch_to site s)"
  using switch_to_unmasked shape_fields(6) [OF switchableD(1)]
  by (simp add: tick_enabled_def)

text \<open>The table after a switch: the thread that terminated earlier disappears, unless the next
  thread starts at its entry point and so never passes behind \<open>sigsetjmp\<close>.\<close>

definition reaps :: "call_site \<Rightarrow> machine \<Rightarrow> bool" where
  "reaps site s \<longleftrightarrow> pendingDeletionTid s \<noteq> -1
     \<and> (case next_context site s of Env_switch _ _ \<Rightarrow> True | _ \<Rightarrow> False)"

lemma table_switch_to:
  assumes "owned s"
  shows "table (switch_to site s) t = (if reaps site s \<and> t = pendingDeletionTid s then None
    else map_option (switch_thread site s t) (table s t))"
  using assms table_switched [OF assms]
  by (auto simp: switch_to_def landed_def reaps_def reaped_def split: jmp_env.splits)

lemma tids_switch_to:
  assumes "owned s"
  shows "tids (switch_to site s) = tids s - (if reaps site s then {pendingDeletionTid s} else {})"
  using assms
  by (auto simp: switch_to_def landed_def reaps_def reaped_def split: jmp_env.splits)

lemma pending_switch_to: "pendingDeletionTid (switch_to site s) =
    (case next_context site s of Env_switch _ _ \<Rightarrow> -1 | _ \<Rightarrow> pendingDeletionTid s)"
  by (simp add: switch_to_def landed_def split: jmp_env.splits)

end
