(* ===== verification/Calls.thy ===== *)
theory Calls
  imports Invariant
begin

section \<open>The calls of the library: closed forms and preservation of the invariant\<close>

text \<open>
  For every function of the interface: the value it returns and the state it leaves, on each of
  its branches, and that the invariant survives.
\<close>

lemma upd_th_commute [simp]:
  "upd_th t f (s\<lparr>readyQueue := q\<rparr>) = (upd_th t f s)\<lparr>readyQueue := q\<rparr>"
  "upd_th t f (s\<lparr>sigmask := m\<rparr>) = (upd_th t f s)\<lparr>sigmask := m\<rparr>"
  "upd_th t f (s\<lparr>sleepingThreads := sl\<rparr>) = (upd_th t f s)\<lparr>sleepingThreads := sl\<rparr>"
  "upd_th t f (s\<lparr>pendingDeletionTid := p\<rparr>) = (upd_th t f s)\<lparr>pendingDeletionTid := p\<rparr>"
  "upd_th t f (s\<lparr>cerr := e\<rparr>) = (upd_th t f s)\<lparr>cerr := e\<rparr>"
  by (simp_all add: upd_th_def split: option.splits)

lemma um_put_put [simp]: "um_put k v (um_put k w m) = um_put k v m"
  by (simp add: um_put_def)

lemma upd_th_upd_th [simp]: "upd_th t f (upd_th t g s) = upd_th t (\<lambda>th. f (g th)) s"
  by (simp add: upd_th_def split: option.splits)

lemma sched_inv_tid:
  "sched_inv s \<Longrightarrow> t \<in> tids s \<longleftrightarrow> (\<exists>th. table s t = Some th)"
  by (simp add: owned_table sched_invD(4))

subsection \<open>Argument checks\<close>

lemma getThreadById_eval:
  assumes "owned s"
  shows "getThreadById t s = Done (case um_find (threads s) t of None \<Rightarrow> 0 | Some p \<Rightarrow> p) s"
    and "(case um_find (threads s) t of None \<Rightarrow> 0 | Some p \<Rightarrow> p) = 0 \<longleftrightarrow> t \<notin> tids s"
  using owned_nonnull [OF assms, of t]
  by (auto simp: getThreadById_def act_simps tids_def um.keys_find split: option.splits)

lemma getThreadById_missing: "owned s \<Longrightarrow> t \<notin> tids s \<Longrightarrow> getThreadById t s = Done 0 s"
  by (simp add: getThreadById_eval)

lemma getThreadById_found:
  assumes "owned s" and "t \<in> tids s"
  shows "\<exists>p. p \<noteq> 0 \<and> getThreadById t s = Done p s"
  using getThreadById_eval [OF assms(1), of t] assms(2) by auto

lemma tid_range: "sched_inv s \<Longrightarrow> t \<in> tids s \<Longrightarrow> 0 \<le> t \<and> t < MAX_THREAD_NUM"
  using sched_invD(10) by fastforce

text \<open>In front of a function that takes a thread: with an existing thread it is just called.\<close>

lemma uthread_terminate_known:
  assumes "sched_inv s" "t \<in> tids s"
  shows "uthread_terminate t s = terminate t s"
  using getThreadById_found [OF sched_invD(4) [OF assms(1)] assms(2)] tid_range [OF assms]
  by (auto simp: uthread_terminate_def act_simps)

lemma uthread_block_known:
  assumes "sched_inv s" "t \<in> tids s" "t \<noteq> 0"
  shows "uthread_block t s = block t s"
  using getThreadById_found [OF sched_invD(4) [OF assms(1)] assms(2)] tid_range [OF assms(1,2)] assms(3)
  by (auto simp: uthread_block_def act_simps)

lemma uthread_resume_known:
  assumes "sched_inv s" "t \<in> tids s"
  shows "uthread_resume t s = resume t s"
  using getThreadById_found [OF sched_invD(4) [OF assms(1)] assms(2)] tid_range [OF assms]
  by (auto simp: uthread_resume_def act_simps)

text \<open>A thread ID that is out of range or free is refused, with a message and no other effect.\<close>

definition tid_error :: "int \<Rightarrow> string" where
  "tid_error t = (if t < 0 \<or> t \<ge> MAX_THREAD_NUM then err_invalid_tid else err_no_thread t)"

lemma uthread_terminate_unknown:
  assumes "owned s" "t \<notin> tids s"
  shows "uthread_terminate t s = Done (-1) (s\<lparr>cerr := cerr s @ [tid_error t]\<rparr>)"
  using assms by (simp add: uthread_terminate_def act_simps getThreadById_missing tid_error_def)

lemma uthread_block_unknown:
  assumes "owned s" "t \<notin> tids s" "t \<noteq> 0"
  shows "uthread_block t s = Done (-1) (s\<lparr>cerr := cerr s @ [tid_error t]\<rparr>)"
  using assms by (simp add: uthread_block_def act_simps getThreadById_missing tid_error_def)

lemma uthread_resume_unknown:
  assumes "owned s" "t \<notin> tids s"
  shows "uthread_resume t s = Done (-1) (s\<lparr>cerr := cerr s @ [tid_error t]\<rparr>)"
  using assms by (simp add: uthread_resume_def act_simps getThreadById_missing tid_error_def)

subsection \<open>Spawn\<close>

text \<open>What \<open>operator new\<close> promises: fresh, non-null memory.\<close>

definition alloc_ok :: "allocation \<Rightarrow> machine \<Rightarrow> bool" where
  "alloc_ok al s \<longleftrightarrow> obj_addr al \<noteq> 0 \<and> obj_addr al \<notin> um_keys (heap s)
     \<and> stack_addr al \<noteq> 0 \<and> stack_addr al \<notin> set (live_stacks s)"

definition free_tid :: "machine \<Rightarrow> int" where
  "free_tid s = available_from (threads s) 0"

definition new_thread :: "allocation \<Rightarrow> address \<Rightarrow> int \<Rightarrow> machine \<Rightarrow> thread" where
  "new_thread al entry t s =
     \<lparr>env = Env_entry (translate_address (guard s) (initial_sp (stack_addr al)))
              (translate_address (guard s) entry) {},
      thread_id = t, state = READY, stack = stack_addr al, quantumCount = 0, didUserBlock = False\<rparr>"

definition spawned :: "allocation \<Rightarrow> address \<Rightarrow> int \<Rightarrow> machine \<Rightarrow> machine" where
  "spawned al entry t s = s\<lparr>heap := um_put (obj_addr al) (new_thread al entry t s) (heap s),
     threads := um_put t (obj_addr al) (threads s),
     live_stacks := live_stacks s @ [stack_addr al],
     readyQueue := readyQueue s @ [t], sigmask := sigmask s - {SIGVTALRM}\<rparr>"

lemma free_tid_spec:
  "free_tid s = -1 \<and> {0..<MAX_THREAD_NUM} \<subseteq> tids s
   \<or> 0 \<le> free_tid s \<and> free_tid s < MAX_THREAD_NUM \<and> free_tid s \<notin> tids s
     \<and> (\<forall>t. 0 \<le> t \<and> t < free_tid s \<longrightarrow> t \<in> tids s)"
  using available_from_spec [of 0 "threads s"] by (auto simp: free_tid_def tids_def)

lemma spawn_full:
  "free_tid s = -1 \<Longrightarrow> spawn al entry s =
     Done (-1) (s\<lparr>cerr := cerr s @ [''thread library error: reached maximum thread limit'']\<rparr>)"
  by (simp add: spawn_def nextAvailableTid_def free_tid_def act_simps)

lemma spawn_eval:
  assumes "failing s = []" "alloc_ok al s" "free_tid s \<noteq> -1" "0 \<in> tids s"
  shows "spawn al entry s = Done (free_tid s) (spawned al entry (free_tid s) s)"
proof -
  have "free_tid s \<noteq> 0"
    using free_tid_spec [of s] assms(4) by auto
  then show ?thesis
    using assms
    by (simp add: spawn_def nextAvailableTid_def free_tid_def [symmetric] act_simps spawn_with_def
        new_Thread_def alloc_ok_def construct_spawned spawned_def new_thread_def)
qed

lemma table_spawned:
  assumes "owned s" "alloc_ok al s" "t \<notin> tids s"
  shows "table (spawned al entry t s) = (table s)(t \<mapsto> new_thread al entry t s)"
proof
  fix u
  have "um_find (threads s) u = Some p \<Longrightarrow> p \<noteq> obj_addr al" for p
    using assms(1,2) by (auto simp: owned_def alloc_ok_def)
  then show "table (spawned al entry t s) u = ((table s)(t \<mapsto> new_thread al entry t s)) u"
    by (auto simp: spawned_def table_def split: option.splits)
qed

lemma spawned_frame [simp, frame_simps]:
  "readyQueue (spawned al entry t s) = readyQueue s @ [t]"
  "currentTid (spawned al entry t s) = currentTid s" "failing (spawned al entry t s) = failing s"
  "sigmask (spawned al entry t s) = sigmask s - {SIGVTALRM}"
  "quantumUsecs (spawned al entry t s) = quantumUsecs s"
  "totalQuantums (spawned al entry t s) = totalQuantums s"
  "tids (spawned al entry t s) = insert t (tids s)"
  "sleepers (spawned al entry t s) = sleepers s"
  "sleepingThreads (spawned al entry t s) = sleepingThreads s"
  "pendingDeletionTid (spawned al entry t s) = pendingDeletionTid s"
  "handler_installed (spawned al entry t s) = handler_installed s"
  "cerr (spawned al entry t s) = cerr s" "guard (spawned al entry t s) = guard s"
  by (simp_all add: spawned_def tids_def sleepers_def)

lemma owned_spawned:
  assumes "owned s" "alloc_ok al s" "t \<notin> tids s"
  shows "owned (spawned al entry t s)"
proof -
  have "um_find (threads s) u \<noteq> Some (obj_addr al)" for u
    using assms(1,2) by (auto simp: owned_def alloc_ok_def)
  moreover have "\<exists>u. u \<noteq> t \<and> um_find (threads s) u = Some p" if "p \<in> um_keys (heap s)" for p
    using assms(1,3) that unfolding owned_def tids_def um.not_in_keys by (metis option.distinct(1))
  ultimately show ?thesis
    using assms unfolding owned_def
    by (simp add: spawned_def alloc_ok_def) (metis option.inject)
qed

lemma stacks_ok_spawned:
  assumes "owned s" "stacks_ok s" "alloc_ok al s" "t \<notin> tids s" "t \<noteq> 0"
  shows "stacks_ok (spawned al entry t s)"
proof -
  let ?n = "new_thread al entry t s"
  have tab: "table (spawned al entry t s) = (table s)(t \<mapsto> ?n)"
    by (rule table_spawned) (use assms in auto)
  have none: "table s t = None" using assms(1,4) owned_None by blast
  have n: "thread_id ?n = t" "stack ?n = stack_addr al" by (simp_all add: new_thread_def)
  have live: "live_stacks (spawned al entry t s) = live_stacks s @ [stack_addr al]"
    by (simp add: spawned_def)
  have other: "stack th \<noteq> stack_addr al" if "table s u = Some th" for u th
    using assms(2,3) that unfolding stacks_ok_def alloc_ok_def by metis
  have "b \<in> set (live_stacks (spawned al entry t s))
      \<longleftrightarrow> (\<exists>u th. table (spawned al entry t s) u = Some th \<and> u \<noteq> 0 \<and> stack th = b)" for b
  proof (cases "b = stack_addr al")
    case True
    then show ?thesis using n assms(5) by (auto simp: live tab)
  next
    case False
    then have "b \<in> set (live_stacks (spawned al entry t s)) \<longleftrightarrow> b \<in> set (live_stacks s)"
      by (simp add: live)
    also have "\<dots> \<longleftrightarrow> (\<exists>u th. table s u = Some th \<and> u \<noteq> 0 \<and> stack th = b)"
      using assms(2) by (simp add: stacks_ok_def)
    also have "\<dots> \<longleftrightarrow> (\<exists>u th. table (spawned al entry t s) u = Some th \<and> u \<noteq> 0 \<and> stack th = b)"
      using False none n by (auto simp: tab) (metis option.distinct(1))
    finally show ?thesis .
  qed
  then show ?thesis
    using assms(2,3,5) n unfolding stacks_ok_def by (auto simp: tab alloc_ok_def dest: other)
qed

lemma spawned_inv:
  assumes inv: "sched_inv s" and al: "alloc_ok al s"
    and t: "t \<notin> tids s" "0 \<le> t" "t < MAX_THREAD_NUM"
  shows "sched_inv (spawned al entry t s)"
proof -
  note d = sched_invD [OF inv]
  let ?s = "spawned al entry t s" and ?n = "new_thread al entry t s"
  have tab: "table ?s = (table s)(t \<mapsto> ?n)" by (rule table_spawned [OF d(4) al t(1)])
  have "t \<noteq> 0" using t(1) main_exists [OF d(1)] by auto
  then have mem: "mem_inv ?s"
    using owned_spawned [OF d(4) al t(1)] stacks_ok_spawned [OF d(4,5) al t(1)]
    by (simp add: mem_inv_def)
  have new: "waiting_ok ?s t ?n"
    using t(1) d(13) by (auto simp: waiting_ok_def new_thread_def terminated_def)
  have "waiting_ok ?s u th" if "table s u = Some th" "u \<noteq> currentTid s" for u th
    using shape_waiting [OF d(1) that] t(1) table_tids [OF that(1)] by (auto simp: waiting_ok_def)
  then have "shape ?s"
    using d t mem new shape_quantum [OF d(1)] unfolding shape_def
    by (auto simp: tab new_thread_def [of al entry t s])
  moreover have "pend_ok ?s"
    using d(2) t by (auto simp: pend_ok_def tab dest: table_tids)
  moreover obtain c where "table s (currentTid s) = Some c" "state c = RUNNING"
    by (rule sched_inv_current [OF inv])
  moreover have "currentTid s \<noteq> t" using t(1) d(11) by auto
  ultimately show ?thesis by (simp add: sched_inv_def tab)
qed

subsection \<open>Changing the running thread before a switch\<close>

lemma shape_upd_current:
  assumes sh: "shape s" and f: "\<And>th. thread_id (f th) = thread_id th" "\<And>th. stack (f th) = stack th"
    "\<And>th. quantumCount (f th) = quantumCount th"
  shows "shape (upd_th (currentTid s) f s)"
proof -
  note d = shape_fields [OF sh]
  have "0 \<le> quantumCount (f th) \<and> quantumCount (f th) \<le> totalQuantums s"
    if "table s (currentTid s) = Some th" for th
    using shape_quantum [OF sh that] f(3) by simp
  then show ?thesis
    using sh stacks_ok_upd_th [OF d(2,3), of f] f d(2)
    unfolding shape_def by (auto simp: mem_inv_def waiting_ok_def)
qed

lemma pend_ok_upd_current: "owned s \<Longrightarrow> pend_ok s \<Longrightarrow> pend_ok (upd_th (currentTid s) f s)"
  by (auto simp: pend_ok_def)

lemma shape_sleeping:
  assumes "shape s" and "currentTid s \<noteq> 0"
  shows "shape (s\<lparr>sleepingThreads := um_put (currentTid s) d (sleepingThreads s)\<rparr>)"
  using assms owned_sleeping [of s "um_put (currentTid s) d (sleepingThreads s)"]
  unfolding shape_def by (auto simp: mem_inv_def owned_um_ok waiting_ok_def sleepers_def)

subsection \<open>Block\<close>

definition blocked_state :: "int \<Rightarrow> machine \<Rightarrow> machine" where
  "blocked_state t s = (upd_th t (\<lambda>th. th\<lparr>state := BLOCKED, didUserBlock := True\<rparr>) s)
     \<lparr>readyQueue := filter (\<lambda>x. x \<noteq> t) (readyQueue s), sigmask := sigmask s - {SIGVTALRM}\<rparr>"

definition self_blocked :: "machine \<Rightarrow> machine" where
  "self_blocked s = (upd_th (currentTid s) (\<lambda>th. th\<lparr>state := BLOCKED, didUserBlock := True\<rparr>) s)
     \<lparr>sigmask := insert SIGVTALRM (sigmask s)\<rparr>"

lemma block_flagged:
  "table s t = Some th \<Longrightarrow> didUserBlock th \<Longrightarrow> block t s = Done 0 s"
  by (erule table_SomeE) (simp add: block_def act_simps)

lemma block_ready:
  assumes "failing s = []" "owned s" "table s t = Some th" "\<not> didUserBlock th" "state th = READY"
  shows "block t s = Done 0 (blocked_state t s)"
proof -
  obtain p where p: "um_find (threads s) t = Some p" "um_find (heap s) p = Some th"
    using assms(3) by (rule table_SomeE)
  then show ?thesis
    using assms call_method_ok [of _ t p]
    by (simp add: block_def act_simps Let_def blocked_state_def)
qed

lemma block_blocked:
  assumes "failing s = []" "owned s" "table s t = Some th" "\<not> didUserBlock th" "state th = BLOCKED"
    "t \<notin> set (readyQueue s)"
  shows "block t s = Done 0 (blocked_state t s)"
proof -
  obtain p where p: "um_find (threads s) t = Some p" "um_find (heap s) p = Some th"
    using assms(3) by (rule table_SomeE)
  then show ?thesis
    using assms call_method_ok [of _ t p] filter_neq_idem [OF assms(6)]
    by (simp add: block_def act_simps Let_def blocked_state_def)
qed

text \<open>A thread that blocks itself: the flag is set, and then the switch is made.\<close>

lemma block_self:
  assumes "failing s = []" "owned s" "table s (currentTid s) = Some th" "\<not> didUserBlock th"
    "state th = RUNNING" "readyQueue s \<noteq> []"
  shows "block (currentTid s) s = bnd (doContextSwitch From_block) (\<lambda>_. ret 0) (self_blocked s)"
proof -
  obtain p where p: "um_find (threads s) (currentTid s) = Some p" "um_find (heap s) p = Some th"
    using assms(3) by (rule table_SomeE)
  then show ?thesis
    using assms call_method_ok [of _ "currentTid s" p]
    by (simp add: block_def act_simps Let_def self_blocked_def q_empty_def)
qed

text \<open>With nothing else ready the call fails; the thread goes on running.\<close>

lemma block_self_fails:
  assumes "failing s = []" "owned s" "table s (currentTid s) = Some th" "\<not> didUserBlock th"
    "state th = RUNNING" "readyQueue s = []"
  shows "block (currentTid s) s = Done (-1)
    ((upd_th (currentTid s) (\<lambda>th. th\<lparr>state := RUNNING\<rparr>) s)
      \<lparr>cerr := cerr s @ [''thread library error: no threads left to run after blocking''],
       sigmask := sigmask s - {SIGVTALRM}\<rparr>)"
proof -
  obtain p where p: "um_find (threads s) (currentTid s) = Some p" "um_find (heap s) p = Some th"
    using assms(3) by (rule table_SomeE)
  then show ?thesis
    using assms call_method_ok [of _ "currentTid s" p]
    by (simp add: block_def act_simps Let_def q_empty_def)
qed

lemma blocked_state_inv:
  assumes inv: "sched_inv s" and th: "table s t = Some th"
    and t: "t \<noteq> currentTid s" "t \<noteq> 0"
  shows "sched_inv (blocked_state t s)"
proof -
  note d = sched_invD [OF inv]
  let ?f = "\<lambda>th. th\<lparr>state := BLOCKED, didUserBlock := True\<rparr>"
  have mem: "mem_inv (blocked_state t s)"
    using stacks_ok_upd_th [OF d(4,5), of ?f] d(4)
    by (simp add: mem_inv_def blocked_state_def)
  have tab: "table (blocked_state t s) = (table s)(t \<mapsto> ?f th)"
    using th d(4) by (simp add: blocked_state_def)
  have w: "waiting_ok s u uh" if "table s u = Some uh" "u \<noteq> currentTid s" for u uh
    by (rule shape_waiting [OF d(1) that])
  have "waiting_ok (blocked_state t s) t (?f th)"
    using w [OF th t(1)] by (simp add: waiting_ok_def blocked_state_def terminated_def)
  moreover have "waiting_ok (blocked_state t s) u uh"
    if "table s u = Some uh" "u \<noteq> currentTid s" "u \<noteq> t" for u uh
    using w [OF that(1,2)] that(3) by (simp add: waiting_ok_def blocked_state_def)
  ultimately have sh: "shape (blocked_state t s)"
    using d t mem shape_quantum [OF d(1)] th
    unfolding shape_def tab by (auto simp: blocked_state_def)
  have "pend_ok (blocked_state t s)"
    using d(2) th unfolding pend_ok_def tab
    by (auto simp: blocked_state_def terminated_def)
  moreover obtain c where "table s (currentTid s) = Some c" "state c = RUNNING"
    by (rule sched_inv_current [OF inv])
  ultimately show ?thesis
    using sh t(1) by (simp add: sched_inv_def tab) (simp add: blocked_state_def)
qed

lemma ready_not_empty: "sched_inv s \<Longrightarrow> currentTid s \<noteq> 0 \<Longrightarrow> readyQueue s \<noteq> []"
  using sched_invD(14) by fastforce

lemma self_blocked_switchable:
  assumes inv: "sched_inv s" and max: "totalQuantums s < INT_MAX" and cur: "currentTid s \<noteq> 0"
  shows "switchable From_block (self_blocked s)"
proof -
  note d = sched_invD [OF inv]
  have "shape (self_blocked s)" "pend_ok (self_blocked s)"
    using shape_upd_current [OF d(1)] pend_ok_upd_current [OF d(4,2)]
    by (simp_all add: self_blocked_def)
  moreover have "next_queue (self_blocked s) \<noteq> []"
    using ready_not_empty [OF inv cur] by (simp add: next_queue_def self_blocked_def)
  ultimately show ?thesis
    using max by (simp add: switchable_def) (simp add: self_blocked_def)
qed

subsection \<open>Resume\<close>

definition resumed_state :: "int \<Rightarrow> machine \<Rightarrow> machine" where
  "resumed_state t s = (if t \<in> sleepers s
     then (upd_th t (\<lambda>th. th\<lparr>didUserBlock := False\<rparr>) s)\<lparr>sigmask := sigmask s - {SIGVTALRM}\<rparr>
     else (upd_th t (\<lambda>th. th\<lparr>state := READY\<rparr>) s)
            \<lparr>readyQueue := readyQueue s @ [t], sigmask := sigmask s - {SIGVTALRM}\<rparr>)"

lemma resume_unblocked:
  assumes "table s t = Some th" "0 \<le> t" "state th \<noteq> BLOCKED"
  shows "resume t s = Done 0 s"
  using assms table_tids [OF assms(1)]
  by (auto simp: resume_def act_simps Let_def tids_def elim: table_SomeE)

lemma resume_blocked:
  assumes "failing s = []" "table s t = Some th" "0 \<le> t" "state th = BLOCKED"
  shows "resume t s = Done 0 (resumed_state t s)"
proof -
  obtain p where p: "um_find (threads s) t = Some p" "um_find (heap s) p = Some th"
    using assms(2) by (rule table_SomeE)
  then show ?thesis
    using assms call_method_ok [of _ t p] table_tids [OF assms(2)]
    by (simp add: resume_def act_simps Let_def resumed_state_def tids_def sleepers_def)
qed

lemma resumed_state_inv:
  assumes inv: "sched_inv s" and th: "table s t = Some th" "\<not> terminated th" "state th = BLOCKED"
  shows "sched_inv (resumed_state t s)"
proof -
  note d = sched_invD [OF inv]
  obtain c where c: "table s (currentTid s) = Some c" "state c = RUNNING"
    by (rule sched_inv_current [OF inv])
  then have t: "t \<noteq> currentTid s" using th by auto
  have w: "waiting_ok s u uh" if "table s u = Some uh" "u \<noteq> currentTid s" for u uh
    by (rule shape_waiting [OF d(1) that])
  define f :: "thread \<Rightarrow> thread"
    where "f = (\<lambda>th. if t \<in> sleepers s then th\<lparr>didUserBlock := False\<rparr> else th\<lparr>state := READY\<rparr>)"
  have tab: "table (resumed_state t s) = (table s)(t \<mapsto> f th)"
    using th d(4) by (simp add: resumed_state_def f_def)
  have mem: "mem_inv (resumed_state t s)"
    using stacks_ok_upd_th [OF d(4,5), of "\<lambda>th. th\<lparr>didUserBlock := False\<rparr>"]
      stacks_ok_upd_th [OF d(4,5), of "\<lambda>th. th\<lparr>state := READY\<rparr>"] d(4)
    by (simp add: mem_inv_def resumed_state_def)
  have frame: "tids (resumed_state t s) = tids s" "sleepers (resumed_state t s) = sleepers s"
    "currentTid (resumed_state t s) = currentTid s" "failing (resumed_state t s) = failing s"
    "quantumUsecs (resumed_state t s) = quantumUsecs s"
    "totalQuantums (resumed_state t s) = totalQuantums s"
    "pendingDeletionTid (resumed_state t s) = pendingDeletionTid s"
    "handler_installed (resumed_state t s) = handler_installed s"
    "readyQueue (resumed_state t s) = readyQueue s @ (if t \<in> sleepers s then [] else [t])"
    by (simp_all add: resumed_state_def)
  have "waiting_ok (resumed_state t s) t (f th)"
    using w [OF th(1) t] th(2,3) by (simp add: waiting_ok_def frame terminated_def f_def)
  moreover have "waiting_ok (resumed_state t s) u uh"
    if "table s u = Some uh" "u \<noteq> currentTid s" "u \<noteq> t" for u uh
    using w [OF that(1,2)] that(3) by (simp add: waiting_ok_def frame)
  moreover have "quantumCount (f th) = quantumCount th" by (simp add: f_def)
  ultimately have sh: "shape (resumed_state t s)"
    using d t mem shape_quantum [OF d(1)] th table_tids [OF th(1)]
    unfolding shape_def tab frame by auto
  have "terminated (f th) = terminated th" by (simp add: f_def terminated_def)
  then have "pend_ok (resumed_state t s)"
    using d(2) th unfolding pend_ok_def tab frame by auto
  then show ?thesis
    using sh t c by (simp add: sched_inv_def tab frame)
qed

subsection \<open>Sleep\<close>

definition put_to_sleep :: "int \<Rightarrow> machine \<Rightarrow> machine" where
  "put_to_sleep n s = (upd_th (currentTid s) (\<lambda>th. th\<lparr>state := BLOCKED\<rparr>) s)
     \<lparr>sigmask := insert SIGVTALRM (sigmask s),
      sleepingThreads := um_put (currentTid s) (totalQuantums s + n) (sleepingThreads s)\<rparr>"

lemma mask_sleeping_commute:
  "s\<lparr>sigmask := m, sleepingThreads := sl\<rparr> = s\<lparr>sleepingThreads := sl, sigmask := m\<rparr>"
  by (rule machine.equality) simp_all

lemma sleep_eval:
  assumes "failing s = []" "owned s" "table s (currentTid s) = Some th"
    "int_ok (totalQuantums s + n)" "readyQueue s \<noteq> []"
  shows "sleep n s = bnd (doContextSwitch From_sleep) (\<lambda>_. ret 0) (put_to_sleep n s)"
proof -
  obtain p where p: "um_find (threads s) (currentTid s) = Some p" "um_find (heap s) p = Some th"
    using assms(3) by (rule table_SomeE)
  then show ?thesis
    using assms call_method_ok [of _ "currentTid s" p]
    by (simp add: sleep_def act_simps Let_def put_to_sleep_def q_empty_def)
qed

text \<open>A deadline beyond the range of \<open>int\<close> is signed overflow, before anything is checked.\<close>

lemma sleep_overflow:
  assumes "failing s = []" "owned s" "table s (currentTid s) = Some th"
    "\<not> int_ok (totalQuantums s + n)"
  shows "\<exists>t. sleep n s = Stop (Fault Int_overflow) t"
proof -
  obtain p where p: "um_find (threads s) (currentTid s) = Some p" "um_find (heap s) p = Some th"
    using assms(3) by (rule table_SomeE)
  then show ?thesis
    using assms call_method_ok [of _ "currentTid s" p]
    by (simp add: sleep_def act_simps Let_def add_int_None)
qed

lemma put_to_sleep_switchable:
  assumes inv: "sched_inv s" and max: "totalQuantums s < INT_MAX" and cur: "currentTid s \<noteq> 0"
  shows "switchable From_sleep (put_to_sleep n s)"
proof -
  note d = sched_invD [OF inv]
  let ?u = "upd_th (currentTid s) (\<lambda>th. th\<lparr>state := BLOCKED\<rparr>) s"
  have "shape ?u" "pend_ok ?u"
    using shape_upd_current [OF d(1)] pend_ok_upd_current [OF d(4,2)] by simp_all
  then have "shape (?u\<lparr>sleepingThreads := um_put (currentTid s) (totalQuantums s + n) (sleepingThreads s)\<rparr>)"
    using shape_sleeping [of ?u] cur by simp
  then have "shape (put_to_sleep n s)"
    by (simp add: put_to_sleep_def mask_sleeping_commute)
  moreover have "pend_ok (put_to_sleep n s)"
    using \<open>pend_ok ?u\<close> by (simp add: put_to_sleep_def pend_ok_def)
  moreover have "next_queue (put_to_sleep n s) \<noteq> []"
    using ready_not_empty [OF inv cur] by (simp add: next_queue_def put_to_sleep_def)
  ultimately show ?thesis
    using max by (simp add: switchable_def) (simp add: put_to_sleep_def)
qed

subsection \<open>Terminate\<close>

definition removed_state :: "int \<Rightarrow> machine \<Rightarrow> machine" where
  "removed_state t s = (drop_thread t s)
     \<lparr>readyQueue := filter (\<lambda>x. x \<noteq> t) (readyQueue s),
      sleepingThreads := um_erase t (sleepingThreads s),
      sigmask := sigmask s - {SIGVTALRM}\<rparr>"

definition self_terminated :: "machine \<Rightarrow> machine" where
  "self_terminated s = (upd_th (currentTid s) (\<lambda>th. th\<lparr>state := READY\<rparr>) s)
     \<lparr>sigmask := insert SIGVTALRM (sigmask s), pendingDeletionTid := currentTid s\<rparr>"

lemma drop_thread_commute [simp]:
  "drop_thread t (s\<lparr>readyQueue := q\<rparr>) = (drop_thread t s)\<lparr>readyQueue := q\<rparr>"
  "drop_thread t (s\<lparr>sigmask := m\<rparr>) = (drop_thread t s)\<lparr>sigmask := m\<rparr>"
  "drop_thread t (s\<lparr>sleepingThreads := sl\<rparr>) = (drop_thread t s)\<lparr>sleepingThreads := sl\<rparr>"
  by (simp_all add: drop_thread_def split: option.splits)

lemma terminate_other:
  assumes inv: "sched_inv s" and t: "t \<in> tids s" "t \<noteq> 0" "t \<noteq> currentTid s"
  shows "terminate t s = Done 0 (removed_state t s)"
proof -
  note d = sched_invD [OF inv]
  obtain th where th: "table s t = Some th" using t(1) sched_inv_tid [OF inv] by auto
  have w: "waiting_ok s t th" by (rule shape_waiting [OF d(1) th t(3)])
  let ?q = "filter (\<lambda>x. x \<noteq> t) (readyQueue s)"
  let ?m = "if state th = READY then sigmask s - {SIGVTALRM} else insert SIGVTALRM (sigmask s)"
  let ?a = "s\<lparr>readyQueue := ?q, sigmask := ?m, sleepingThreads := um_erase t (sleepingThreads s)\<rparr>"
  have q: "state th \<noteq> READY \<Longrightarrow> ?q = readyQueue s"
    using w by (cases "state th") (auto simp: waiting_ok_def intro!: filter_neq_idem)
  have same: "s\<lparr>readyQueue := readyQueue s\<rparr> = s" by simp
  have "mem_inv ?a"
    using d(4,5) by (simp add: mem_inv_def owned_um_ok owned_sleeping)
  note del = delete_thread_eval [OF this, of t]
  have "terminate t s = stmts [bnd (threads_at t) delete_thread,
      modify (\<lambda>s. s\<lparr>threads := um_erase t (threads s)\<rparr>), unblockTimerSignal] (ret 0) ?a"
  proof (cases "state th = READY")
    case True
    then show ?thesis
      using t th d(6) by (simp add: terminate_def stmts_step bnd_apply cond_apply act_simps(1-6)
          blockTimerSignal_ok ask_thread_ok removeFromReadyQueue_ok)
  next
    case False
    then show ?thesis
      using t th d(6) q [OF False]
      by (simp add: terminate_def stmts_step bnd_apply cond_apply act_simps(1-6)
          blockTimerSignal_ok ask_thread_ok)
  qed
  also have "\<dots> = Done 0 (removed_state t s)"
    using t d(6) del by (simp add: act_simps removed_state_def stmts_step bnd_apply)
  finally show ?thesis .
qed

lemma terminate_self:
  assumes inv: "sched_inv s" and cur: "currentTid s \<noteq> 0"
  shows "terminate (currentTid s) s = bnd (doContextSwitch From_terminate) (\<lambda>_. ret 0)
    (self_terminated s)"
proof -
  note d = sched_invD [OF inv]
  obtain th where th: "table s (currentTid s) = Some th" "state th = RUNNING"
    by (rule sched_inv_current [OF inv])
  then show ?thesis
    using cur d(6) ready_not_empty [OF inv cur]
    by (simp add: terminate_def act_simps q_empty_def self_terminated_def setState_eta)
qed

lemma removed_frame [simp, frame_simps]:
  "readyQueue (removed_state t s) = filter (\<lambda>x. x \<noteq> t) (readyQueue s)"
  "currentTid (removed_state t s) = currentTid s" "failing (removed_state t s) = failing s"
  "sleepers (removed_state t s) = sleepers s - {t}"
  "quantumUsecs (removed_state t s) = quantumUsecs s"
  "totalQuantums (removed_state t s) = totalQuantums s"
  "pendingDeletionTid (removed_state t s) = pendingDeletionTid s"
  "handler_installed (removed_state t s) = handler_installed s"
  "sigmask (removed_state t s) = sigmask s - {SIGVTALRM}" "cerr (removed_state t s) = cerr s"
  by (simp_all add: removed_state_def sleepers_def)

lemma removed_table:
  assumes "owned s"
  shows "table (removed_state t s) = (table s)(t := None)" "tids (removed_state t s) = tids s - {t}"
  using assms by (simp_all add: removed_state_def)

lemma removed_state_inv:
  assumes inv: "sched_inv s"
    and t: "t \<noteq> 0" "t \<noteq> currentTid s" "t \<noteq> pendingDeletionTid s"
  shows "sched_inv (removed_state t s)"
proof -
  note d = sched_invD [OF inv]
  have mem: "mem_inv (removed_state t s)"
    using mem_inv_drop_thread [OF d(3), of t] d(4)
    by (simp add: removed_state_def mem_inv_def owned_sleeping owned_um_ok)
  note tab = removed_table [OF d(4), of t]
  have "waiting_ok (removed_state t s) u uh"
    if "table s u = Some uh" "u \<noteq> currentTid s" "u \<noteq> t" for u uh
    using shape_waiting [OF d(1) that(1,2)] that(3) by (simp add: waiting_ok_def)
  then have "shape (removed_state t s)"
    using d t mem shape_quantum [OF d(1)] unfolding shape_def tab
    by (auto split: if_splits)
  moreover have "pend_ok (removed_state t s)"
    using d(2) t unfolding pend_ok_def tab by auto
  moreover obtain c where "table s (currentTid s) = Some c" "state c = RUNNING"
    by (rule sched_inv_current [OF inv])
  ultimately show ?thesis
    using t by (simp add: sched_inv_def tab)
qed

lemma self_terminated_switchable:
  assumes inv: "sched_inv s" and max: "totalQuantums s < INT_MAX" and cur: "currentTid s \<noteq> 0"
    and dead: "currentTid s \<notin> set (readyQueue s)" "currentTid s \<notin> sleepers s"
  shows "switchable From_terminate (self_terminated s)"
proof -
  note d = sched_invD [OF inv]
  obtain th where th: "table s (currentTid s) = Some th" "state th = RUNNING"
    by (rule sched_inv_current [OF inv])
  have "shape (upd_th (currentTid s) (\<lambda>th. th\<lparr>state := READY\<rparr>) s)"
    using shape_upd_current [OF d(1)] by simp
  then have "shape (self_terminated s)"
    by (simp add: self_terminated_def shape_def mem_inv_def waiting_ok_def)
  then show ?thesis
    using max cur dead th d(4) ready_not_empty [OF inv cur]
    by (simp add: switchable_def) (simp add: self_terminated_def)
qed

subsection \<open>The end of the process\<close>

lemma delete_all_eval:
  "mem_inv (s\<lparr>threads := es\<rparr>) \<Longrightarrow> \<exists>t. delete_all es s = Done () t \<and> heap t = []
     \<and> live_stacks t = [] \<and> failing t = failing s"
proof (induction es arbitrary: s)
  case Nil
  have "um_keys (heap s) = {}"
    using Nil by (auto simp: mem_inv_def owned_def um_find_def)
  moreover have "live_stacks s = []"
    using Nil unfolding mem_inv_def stacks_ok_def by (auto simp: table_def um_find_def)
  ultimately show ?case by (simp add: act_simps um_keys_def)
next
  case (Cons e es)
  obtain t p where e: "e = (t, p)" by (cases e)
  let ?s = "s\<lparr>threads := e # es\<rparr>"
  have own: "owned ?s" "stacks_ok ?s" using Cons.prems by (simp_all add: mem_inv_def)
  have find: "um_find (threads ?s) t = Some p" by (simp add: e um_find_def)
  obtain th where th: "um_find (heap s) p = Some th"
    using owned_heap [OF own(1) find] by auto
  have p: "p \<noteq> 0" using owned_nonnull [OF own(1), of t] find by auto
  have tab: "table ?s t = Some th" using find th by (simp add: table_def)
  have id: "thread_id th = t" "stack th = 0 \<longleftrightarrow> t = 0" "t \<noteq> 0 \<Longrightarrow> stack th \<in> set (live_stacks s)"
    using own(2) tab unfolding stacks_ok_def by auto
  have "0 \<notin> set (live_stacks s)" using own(2) unfolding stacks_ok_def by auto
  then have zero: "t = 0 \<Longrightarrow> filter (\<lambda>b. b \<noteq> stack th) (live_stacks s) = live_stacks s"
    using id(2) by (simp add: filter_neq_idem)
  let ?d = "s\<lparr>heap := um_erase p (heap s),
     live_stacks := filter (\<lambda>b. b \<noteq> stack th) (live_stacks s)\<rparr>"
  have del: "delete_thread p s = Done () ?d"
    using th p id zero by (cases "t = 0")
      (simp_all add: delete_thread_def Thread_destruct_def act_simps)
  have "t \<notin> fst ` set es" using own(1) by (simp add: owned_def um_ok_def e)
  then have "um_erase t (e # es) = es" by (simp add: um_erase_def e)
  then have "drop_thread t ?s = ?d\<lparr>threads := es\<rparr>"
    using find th by (simp add: drop_thread_def)
  then have "mem_inv (?d\<lparr>threads := es\<rparr>)"
    using mem_inv_drop_thread [OF Cons.prems, of t] by simp
  then obtain u where "delete_all es ?d = Done () u" "heap u = []" "live_stacks u = []"
      "failing u = failing s"
    using Cons.IH [of ?d] by auto
  then show ?case
    using del by (simp add: act_simps e)
qed

lemma terminate_main:
  assumes "mem_inv s" "failing s = []"
  shows "\<exists>t. terminate 0 s = Stop (Exit 0) t \<and> threads t = [] \<and> heap t = [] \<and> live_stacks t = []"
proof -
  let ?s = "s\<lparr>sigmask := insert SIGVTALRM (sigmask s)\<rparr>"
  have "?s\<lparr>threads := threads ?s\<rparr> = ?s" by simp
  then have "mem_inv (?s\<lparr>threads := threads ?s\<rparr>)"
    using assms(1) by (simp add: mem_inv_def)
  from delete_all_eval [OF this] obtain t where t: "delete_all (threads s) ?s = Done () t"
    "heap t = []" "live_stacks t = []" "failing t = []"
    using assms(2) by auto
  then show ?thesis
    using assms(2) by (simp add: terminate_def act_simps)
qed

end
