(* ===== verification/Timer.thy ===== *)
theory Timer
  imports Calls
begin

section \<open>The timer handler\<close>

text \<open>
  Waking the sleeping threads whose time has come, and the tick as a whole.
\<close>

definition flagged :: "machine \<Rightarrow> int \<Rightarrow> bool" where
  "flagged s t = (case table s t of Some th \<Rightarrow> didUserBlock th | None \<Rightarrow> True)"

definition due :: "machine \<Rightarrow> int umap \<Rightarrow> int umap" where
  "due s it = filter (\<lambda>e. snd e \<le> totalQuantums s) it"

text \<open>The threads that become ready, in the order in which they are visited.\<close>

definition wakes :: "machine \<Rightarrow> int umap \<Rightarrow> int list" where
  "wakes s it = map fst (filter (\<lambda>e. \<not> flagged s (fst e)) (due s it))"

definition make_ready :: "int \<Rightarrow> machine \<Rightarrow> machine" where
  "make_ready t s = (upd_th t (\<lambda>th. th\<lparr>state := READY\<rparr>) s)\<lparr>readyQueue := readyQueue s @ [t]\<rparr>"

definition wake_entry :: "int \<times> int \<Rightarrow> machine \<Rightarrow> machine" where
  "wake_entry e s = (if snd e \<le> totalQuantums s
     then (if flagged s (fst e) then s else make_ready (fst e) s)
            \<lparr>sleepingThreads := um_erase (fst e) (sleepingThreads s)\<rparr>
     else s)"

definition woken :: "machine \<Rightarrow> machine" where
  "woken s = fold wake_entry (sleepingThreads s) s"

lemma wake_loop_Cons:
  assumes "owned s" "fst e \<in> tids s"
  shows "wake_loop (e # it) s = wake_loop it (wake_entry e s)"
proof -
  obtain th where "table s (fst e) = Some th" using assms by (auto simp: owned_table)
  then show ?thesis
    by (simp add: act_simps wake_entry_def flagged_def make_ready_def setState_eta)
qed

lemma wake_entry_frame [simp, frame_simps]:
  "currentTid (wake_entry e s) = currentTid s" "failing (wake_entry e s) = failing s"
  "sigmask (wake_entry e s) = sigmask s" "quantumUsecs (wake_entry e s) = quantumUsecs s"
  "totalQuantums (wake_entry e s) = totalQuantums s" "tids (wake_entry e s) = tids s"
  "threads (wake_entry e s) = threads s" "cerr (wake_entry e s) = cerr s"
  "pendingDeletionTid (wake_entry e s) = pendingDeletionTid s" "guard (wake_entry e s) = guard s"
  "handler_installed (wake_entry e s) = handler_installed s"
  "live_stacks (wake_entry e s) = live_stacks s"
  by (simp_all add: wake_entry_def make_ready_def)

lemma owned_wake_entry [simp]: "owned s \<Longrightarrow> owned (wake_entry e s)"
  by (simp add: wake_entry_def make_ready_def owned_sleeping owned_um_ok)

lemma fold_wake_frame [simp, frame_simps]:
  "currentTid (fold wake_entry it s) = currentTid s" "failing (fold wake_entry it s) = failing s"
  "sigmask (fold wake_entry it s) = sigmask s"
  "quantumUsecs (fold wake_entry it s) = quantumUsecs s"
  "totalQuantums (fold wake_entry it s) = totalQuantums s" "tids (fold wake_entry it s) = tids s"
  "threads (fold wake_entry it s) = threads s" "cerr (fold wake_entry it s) = cerr s"
  "pendingDeletionTid (fold wake_entry it s) = pendingDeletionTid s"
  "guard (fold wake_entry it s) = guard s"
  "handler_installed (fold wake_entry it s) = handler_installed s"
  "live_stacks (fold wake_entry it s) = live_stacks s"
  by (induction it arbitrary: s) simp_all

lemma wake_loop_eval:
  "owned s \<Longrightarrow> fst ` set it \<subseteq> tids s \<Longrightarrow> wake_loop it s = Done () (fold wake_entry it s)"
  by (induction it arbitrary: s) (simp_all add: wake_loop_Cons act_simps(1) del: wake_loop.simps(2))

lemma wakeSleepingThreads_eval:
  assumes "owned s" "sleepers s \<subseteq> tids s"
  shows "wakeSleepingThreads s = Done () (woken s)"
  using wake_loop_eval [OF assms(1)] assms(2)
  by (simp add: wakeSleepingThreads_def act_simps(4) woken_def sleepers_def um_keys_def)

subsection \<open>What waking does\<close>

lemma table_wake_entry:
  assumes "owned s"
  shows "table (wake_entry e s) t = (if t = fst e \<and> snd e \<le> totalQuantums s \<and> \<not> flagged s t
    then map_option (\<lambda>th. th\<lparr>state := READY\<rparr>) (table s t) else table s t)"
  using assms by (auto simp: wake_entry_def make_ready_def)

lemma flagged_wake_entry [simp]:
  assumes "owned s"
  shows "flagged (wake_entry e s) t = flagged s t"
  by (simp add: flagged_def table_wake_entry [OF assms] split: option.splits)

lemma queue_wake_entry: "readyQueue (wake_entry e s) =
    readyQueue s @ (if snd e \<le> totalQuantums s \<and> \<not> flagged s (fst e) then [fst e] else [])"
  by (simp add: wake_entry_def make_ready_def)

lemma fold_wake_queue:
  "owned s \<Longrightarrow> readyQueue (fold wake_entry it s) = readyQueue s @ wakes s it"
  by (induction it arbitrary: s) (auto simp: wakes_def due_def queue_wake_entry)

lemma fold_wake_table:
  "owned s \<Longrightarrow> table (fold wake_entry it s) t = (if t \<in> set (wakes s it)
     then map_option (\<lambda>th. th\<lparr>state := READY\<rparr>) (table s t) else table s t)"
  by (induction it arbitrary: s)
    (auto simp: wakes_def due_def table_wake_entry option.map_comp comp_def)

lemma fold_wake_sleeping:
  "sleepingThreads (fold wake_entry it s)
     = filter (\<lambda>e. fst e \<notin> fst ` set (due s it)) (sleepingThreads s)"
proof (induction it arbitrary: s)
  case Nil
  then show ?case by (simp add: due_def)
next
  case (Cons e it)
  have "sleepingThreads (wake_entry e s) = (if snd e \<le> totalQuantums s
      then um_erase (fst e) (sleepingThreads s) else sleepingThreads s)"
    by (simp add: wake_entry_def make_ready_def)
  then show ?case
    using Cons.IH [of "wake_entry e s"]
    by (auto simp: due_def um_erase_def AList.delete_eq intro!: filter_cong)
qed

text \<open>An entry that is due is gone afterwards, the others stay.\<close>

lemma woken_sleeping:
  assumes "um_ok (sleepingThreads s)"
  shows "sleepingThreads (woken s) = filter (\<lambda>e. totalQuantums s < snd e) (sleepingThreads s)"
  unfolding woken_def fold_wake_sleeping
proof (rule filter_cong [OF refl])
  fix e
  assume e: "e \<in> set (sleepingThreads s)"
  have "fst e \<in> fst ` set (due s (sleepingThreads s)) \<longleftrightarrow> snd e \<le> totalQuantums s"
  proof
    assume "fst e \<in> fst ` set (due s (sleepingThreads s))"
    then obtain d where "(fst e, d) \<in> set (sleepingThreads s)" "d \<le> totalQuantums s"
      by (auto simp: due_def)
    moreover have "d = snd e"
      using assms calculation(1) e unfolding um_ok_def
      by (metis distinct_map_fst_unique prod.collapse)
    ultimately show "snd e \<le> totalQuantums s" by simp
  next
    assume "snd e \<le> totalQuantums s"
    with e show "fst e \<in> fst ` set (due s (sleepingThreads s))" by (simp add: due_def)
  qed
  then show "(fst e \<notin> fst ` set (due s (sleepingThreads s))) = (totalQuantums s < snd e)"
    by auto
qed

lemmas woken_queue = fold_wake_queue [of s "sleepingThreads s" for s, folded woken_def]
lemmas woken_table = fold_wake_table [of s "sleepingThreads s" for s, folded woken_def]

lemma woken_frame [simp, frame_simps]:
  "currentTid (woken s) = currentTid s" "failing (woken s) = failing s"
  "sigmask (woken s) = sigmask s" "quantumUsecs (woken s) = quantumUsecs s"
  "totalQuantums (woken s) = totalQuantums s" "tids (woken s) = tids s"
  "threads (woken s) = threads s" "cerr (woken s) = cerr s"
  "pendingDeletionTid (woken s) = pendingDeletionTid s" "guard (woken s) = guard s"
  "handler_installed (woken s) = handler_installed s" "live_stacks (woken s) = live_stacks s"
  by (simp_all add: woken_def)

subsection \<open>Waking keeps the invariant's shape\<close>

lemma shape_wake_entry:
  assumes sh: "shape s" and po: "pend_ok s" and e: "fst e \<in> sleepers s"
  shows "shape (wake_entry e s)" and "pend_ok (wake_entry e s)"
proof -
  note d = shape_fields [OF sh]
  define t where "t = fst e"
  let ?s = "wake_entry e s"
  have t: "t \<in> tids s" "t \<noteq> 0" using e d(11) by (auto simp: t_def)
  have sl: "sleepers ?s = (if snd e \<le> totalQuantums s then sleepers s - {t} else sleepers s)"
    by (simp add: wake_entry_def make_ready_def sleepers_def t_def)
  have qu: "set (readyQueue ?s) = set (readyQueue s)
      \<union> (if snd e \<le> totalQuantums s \<and> \<not> flagged s t then {t} else {})"
    by (auto simp: queue_wake_entry t_def)
  note tab = table_wake_entry [OF d(2), of e, folded t_def]
  have st: "stacks_ok ?s"
    by (rule stacks_ok_map [where g = "\<lambda>u. if u = t \<and> snd e \<le> totalQuantums s \<and> \<not> flagged s t
        then (\<lambda>th. th\<lparr>state := READY\<rparr>) else id", OF d(3)])
      (auto simp: tab option.map_id)
  have "waiting_ok ?s u uh" if u: "table ?s u = Some uh" "u \<noteq> currentTid s" for u uh
  proof (cases "u = t")
    case False
    then show ?thesis
      using shape_waiting [OF sh, of u] u unfolding waiting_ok_def sl qu by (simp add: tab)
  next
    case True
    obtain th where th: "table s t = Some th" using t d(2) by (auto simp: owned_table)
    have "\<not> terminated th" "env_ok (env th)" "state th = READY \<Longrightarrow> t \<in> set (readyQueue s)"
      "state th \<noteq> RUNNING" "state th = BLOCKED \<Longrightarrow> t \<notin> set (readyQueue s)"
      using shape_waiting [OF sh th] u(2) True e by (auto simp: waiting_ok_def t_def)
    moreover have "flagged s t = didUserBlock th" using th by (simp add: flagged_def)
    ultimately show ?thesis
      using th u True e unfolding waiting_ok_def sl qu
      by (auto simp: tab terminated_def t_def split: if_splits)
  qed
  moreover have "0 \<le> quantumCount uh \<and> quantumCount uh \<le> totalQuantums s"
    if "table ?s u = Some uh" for u uh
    using shape_quantum [OF sh] that by (auto simp: tab split: if_splits)
  ultimately show "shape ?s"
    using d t st owned_wake_entry [OF d(2), of e] unfolding shape_def mem_inv_def sl qu by auto
  show "pend_ok ?s"
    using po unfolding pend_ok_def by (auto simp: tab terminated_def)
qed

lemma shape_fold_wake:
  "shape s \<Longrightarrow> pend_ok s \<Longrightarrow> um_ok it \<Longrightarrow> fst ` set it \<subseteq> sleepers s \<Longrightarrow>
     shape (fold wake_entry it s) \<and> pend_ok (fold wake_entry it s)"
proof (induction it arbitrary: s)
  case Nil
  then show ?case by simp
next
  case (Cons e it)
  have "sleepers s - {fst e} \<subseteq> sleepers (wake_entry e s)"
    by (auto simp: wake_entry_def make_ready_def sleepers_def)
  moreover have "fst e \<notin> fst ` set it" "um_ok it"
    using Cons.prems(3) by (simp_all add: um_ok_def)
  ultimately have "fst ` set it \<subseteq> sleepers (wake_entry e s)"
    using Cons.prems(4) unfolding image_subset_iff by (metis Diff_iff empty_iff imageI insert_iff
        list.set_intros(2) subsetD)
  then show ?case
    using Cons.IH [of "wake_entry e s"] shape_wake_entry [of s e] Cons.prems \<open>um_ok it\<close> by simp
qed

lemma shape_woken:
  assumes "shape s" "pend_ok s"
  shows "shape (woken s)" "pend_ok (woken s)"
  using shape_fold_wake [OF assms, of "sleepingThreads s"] shape_fields(2) [OF assms(1)]
  by (auto simp: woken_def owned_um_ok sleepers_def um_keys_def)

subsection \<open>The tick\<close>

text \<open>The state in which the handler, having woken the sleepers, makes the switch.\<close>

definition before_tick_switch :: "machine \<Rightarrow> machine" where
  "before_tick_switch s = (woken s)\<lparr>sigmask := sigmask s - {SIGVTALRM}\<rparr>"

lemma woken_mask: "sleepingThreads (s\<lparr>sigmask := m\<rparr>) = sleepingThreads s"
  by simp

lemma wake_entry_mask: "wake_entry e (s\<lparr>sigmask := m\<rparr>) = (wake_entry e s)\<lparr>sigmask := m\<rparr>"
  by (simp add: wake_entry_def make_ready_def flagged_def mask_sleeping_commute)

lemma fold_wake_mask:
  "fold wake_entry it (s\<lparr>sigmask := m\<rparr>) = (fold wake_entry it s)\<lparr>sigmask := m\<rparr>"
  by (induction it arbitrary: s) (simp_all add: wake_entry_mask)

lemma timerHandler_eval:
  assumes inv: "sched_inv s" and m: "SIGVTALRM \<notin> m"
  shows "timerHandler m (s\<lparr>sigmask := m'\<rparr>) = doContextSwitch (From_timer m)
    ((woken s)\<lparr>sigmask := m' - {SIGVTALRM}\<rparr>)"
proof -
  note d = sched_invD [OF inv]
  let ?s = "s\<lparr>sigmask := insert SIGVTALRM m'\<rparr>"
  have "wakeSleepingThreads ?s = Done () (woken ?s)"
    by (rule wakeSleepingThreads_eval) (use d in auto)
  also have "woken ?s = (woken s)\<lparr>sigmask := insert SIGVTALRM m'\<rparr>"
    by (simp add: woken_def fold_wake_mask)
  finally show ?thesis
    using d(6) by (simp add: timerHandler_def act_simps)
qed

lemma tick_switchable:
  assumes inv: "sched_inv s" and max: "totalQuantums s < INT_MAX" and m: "SIGVTALRM \<notin> m"
  shows "switchable (From_timer m) (before_tick_switch s)"
proof -
  note d = sched_invD [OF inv]
  have "shape (before_tick_switch s)" "pend_ok (before_tick_switch s)"
    using shape_woken [OF d(1,2)] by (simp_all add: before_tick_switch_def)
  moreover have "\<exists>th. table (before_tick_switch s) (currentTid s) = Some th \<and> state th = RUNNING"
    if "next_queue (before_tick_switch s) = []"
  proof -
    have "\<not> requeues (before_tick_switch s)" "readyQueue (woken s) = []"
      using that by (auto simp: next_queue_def before_tick_switch_def split: if_splits)
    then have "\<not> requeues s" "wakes s (sleepingThreads s) = []"
      using woken_queue [OF d(4)] by (simp_all add: requeues_def before_tick_switch_def)
    then show ?thesis
      using sched_inv_current [OF inv] woken_table [OF d(4)]
      by (auto simp: before_tick_switch_def)
  qed
  ultimately show ?thesis
    using max m by (auto simp: switchable_def before_tick_switch_def)
qed

lemma tick_eval:
  assumes inv: "sched_inv s" and max: "totalQuantums s < INT_MAX" and en: "tick_enabled s"
  shows "tick s = Goes (continues (next_context (From_timer (sigmask s)) (before_tick_switch s)))
    (switch_to (From_timer (sigmask s)) (before_tick_switch s))"
proof -
  have m: "SIGVTALRM \<notin> sigmask s" using en by (simp add: tick_enabled_def)
  have "bnd (timerHandler (sigmask s)) (\<lambda>_. ret (0 :: int)) (s\<lparr>sigmask := insert SIGVTALRM (sigmask s)\<rparr>)
      = bnd (doContextSwitch (From_timer (sigmask s))) (\<lambda>_. ret 0) (before_tick_switch s)"
    using timerHandler_eval [OF inv m, of "insert SIGVTALRM (sigmask s)"]
    by (simp add: bnd_apply before_tick_switch_def)
  then show ?thesis
    by (simp only: tick_def switch_settles [OF tick_switchable [OF inv max m]])
qed

lemma tick_inv:
  assumes inv: "sched_inv s" and max: "totalQuantums s < INT_MAX" and en: "tick_enabled s"
    and t: "tick s = Goes c t"
  shows "sched_inv t" and "tick_enabled t"
proof -
  have sw: "switchable (From_timer (sigmask s)) (before_tick_switch s)"
    by (rule tick_switchable [OF inv max]) (use en in \<open>simp add: tick_enabled_def\<close>)
  have "t = switch_to (From_timer (sigmask s)) (before_tick_switch s)"
    using tick_eval [OF inv max en] t by simp
  then show "sched_inv t" "tick_enabled t"
    using switch_to_inv [OF sw] switch_to_tick_enabled [OF sw] by simp_all
qed

end
