(* ===== verification/Moves.thy ===== *)
theory Moves
  imports Timer
begin

section \<open>Every call in closed form\<close>

text \<open>
  What a call of the interface computes from a state that satisfies the invariant.  A call
  either stays in the calling thread and returns, or it departs: it hands the processor over
  with \<open>doContextSwitch\<close>.  \<open>stays\<close> and \<open>departs\<close> give value and state for the two cases, and
  \<open>call_eval\<close> shows that the code computes exactly this.  All facts about the steps of the
  process follow from these closed forms.
\<close>

subsection \<open>What a client must not do\<close>

text \<open>
  The library keeps its state intact under these conditions on a call.  A thread must not be
  resumed or terminated after it has terminated itself, although until its deletion the library
  still reports it as existing; a thread that slept must not terminate itself while the library
  still has it in its sleeping table or a second time in its ready queue; and a deadline must be
  an \<open>int\<close>.  \<open>uthread_init\<close> is called once, first.
\<close>

definition blocked_in :: "machine \<Rightarrow> int \<Rightarrow> bool" where
  "blocked_in s t = (case table s t of Some th \<Rightarrow> state th = BLOCKED | None \<Rightarrow> False)"

definition terminated_in :: "machine \<Rightarrow> int \<Rightarrow> bool" where
  "terminated_in s t = (case table s t of Some th \<Rightarrow> terminated th | None \<Rightarrow> False)"

definition allowed :: "machine \<Rightarrow> api_call \<Rightarrow> bool" where
  "allowed s c = (case c of
     Init _ \<Rightarrow> False
   | Terminate t \<Rightarrow> t \<noteq> pendingDeletionTid s
       \<and> (t = currentTid s \<and> t \<noteq> 0 \<longrightarrow> t \<notin> set (readyQueue s) \<and> t \<notin> sleepers s)
   | Resume t \<Rightarrow> \<not> (terminated_in s t \<and> blocked_in s t)
   | Sleep n \<Rightarrow> totalQuantums s + n \<le> INT_MAX
   | _ \<Rightarrow> True)"

subsection \<open>Staying and departing\<close>

definition complain :: "string \<Rightarrow> machine \<Rightarrow> int \<times> machine" where
  "complain msg s = (-1, s\<lparr>cerr := cerr s @ [msg]\<rparr>)"

definition stays :: "allocation \<Rightarrow> api_call \<Rightarrow> machine \<Rightarrow> int \<times> machine" where
  "stays al c s = (case c of
     Init _ \<Rightarrow> (0, s)
   | Spawn entry \<Rightarrow>
       if entry = 0 then complain ''thread library error: entryPoint cannot be null'' s
       else if free_tid s = -1
       then complain ''thread library error: reached maximum thread limit'' s
       else (free_tid s, spawned al entry (free_tid s) s)
   | Terminate t \<Rightarrow> if t \<in> tids s then (0, removed_state t s) else complain (tid_error t) s
   | Block t \<Rightarrow>
       if t = 0 then complain ''thread library error: cannot block main thread'' s
       else if t \<notin> tids s then complain (tid_error t) s
       else if flagged s t then (0, s) else (0, blocked_state t s)
   | Resume t \<Rightarrow>
       if t \<notin> tids s then complain (tid_error t) s
       else if blocked_in s t then (0, resumed_state t s) else (0, s)
   | Sleep n \<Rightarrow>
       if n \<le> 0 then complain ''thread library error: numQuantums must be positive'' s
       else complain ''thread library error: main thread cannot sleep'' s
   | Get_tid \<Rightarrow> (currentTid s, s)
   | Get_total_quantums \<Rightarrow> (totalQuantums s, s)
   | Get_quantums t \<Rightarrow> (case table s t of
       Some th \<Rightarrow> (quantumCount th, s\<lparr>sigmask := sigmask s - {SIGVTALRM}\<rparr>)
     | None \<Rightarrow> complain err_invalid_tid (s\<lparr>sigmask := insert SIGVTALRM (sigmask s)\<rparr>)))"

definition departs :: "api_call \<Rightarrow> machine \<Rightarrow> (call_site \<times> machine) option" where
  "departs c s = (case c of
     Terminate t \<Rightarrow>
       if t = currentTid s \<and> t \<noteq> 0 then Some (From_terminate, self_terminated s) else None
   | Block t \<Rightarrow>
       if t = currentTid s \<and> t \<noteq> 0 \<and> \<not> flagged s t then Some (From_block, self_blocked s) else None
   | Sleep n \<Rightarrow>
       if 0 < n \<and> currentTid s \<noteq> 0 then Some (From_sleep, put_to_sleep n s) else None
   | _ \<Rightarrow> None)"

lemma departs_simps [simp]:
  "departs (Init q) s = None" "departs (Spawn e) s = None" "departs (Resume t) s = None"
  "departs Get_tid s = None" "departs Get_total_quantums s = None"
  "departs (Get_quantums t) s = None"
  by (simp_all add: departs_def)

lemma depart_switchable:
  assumes inv: "sched_inv s" and max: "totalQuantums s < INT_MAX" and ok: "allowed s c"
    and d: "departs c s = Some (site, u)"
  shows "switchable site u"
proof (cases c)
  case (Terminate t)
  then show ?thesis
    using d ok self_terminated_switchable [OF inv max]
    by (auto simp: departs_def allowed_def split: if_splits)
next
  case (Block t)
  then show ?thesis
    using d self_blocked_switchable [OF inv max] by (auto simp: departs_def split: if_splits)
next
  case (Sleep n)
  then show ?thesis
    using d put_to_sleep_switchable [OF inv max] by (auto simp: departs_def split: if_splits)
qed (use d in simp_all)

subsection \<open>The calls that stay keep the invariant\<close>

lemma complain_inv: "sched_inv s \<Longrightarrow> sched_inv (snd (complain msg s))"
  by (simp add: complain_def)

lemma flagged_iff: "table s t = Some th \<Longrightarrow> flagged s t \<longleftrightarrow> didUserBlock th"
  by (simp add: flagged_def)

lemma stays_inv:
  assumes inv: "sched_inv s" and al: "alloc_ok al s" and ok: "allowed s c"
    and c: "c \<noteq> Terminate 0" and d: "departs c s = None"
  shows "sched_inv (snd (stays al c s))"
proof (cases c)
  case (Spawn entry)
  moreover have "sched_inv (spawned al entry (free_tid s) s)" if "free_tid s \<noteq> -1"
    using free_tid_spec [of s] that by (intro spawned_inv [OF inv al]) auto
  ultimately show ?thesis using inv by (simp add: stays_def complain_inv)
next
  case (Terminate t)
  moreover have "sched_inv (removed_state t s)"
    using ok c d Terminate
    by (intro removed_state_inv [OF inv]) (auto simp: allowed_def departs_def split: if_splits)
  ultimately show ?thesis using inv by (simp add: stays_def complain_inv)
next
  case (Block t)
  moreover have "sched_inv (blocked_state t s)" if t: "t \<noteq> 0" "t \<in> tids s" "\<not> flagged s t"
  proof -
    obtain th where th: "table s t = Some th" using t(2) sched_inv_tid [OF inv] by auto
    have "t \<noteq> currentTid s" using d t Block by (simp add: departs_def split: if_splits)
    then show ?thesis using blocked_state_inv [OF inv th _ t(1)] by simp
  qed
  ultimately show ?thesis using inv by (simp add: stays_def complain_inv)
next
  case (Resume t)
  moreover have "sched_inv (resumed_state t s)" if "blocked_in s t"
    using ok that Resume resumed_state_inv [OF inv]
    by (auto simp: allowed_def blocked_in_def terminated_in_def split: option.splits)
  ultimately show ?thesis using inv by (simp add: stays_def complain_inv)
next
  case (Get_quantums t)
  then show ?thesis using inv by (simp add: stays_def complain_def split: option.splits)
qed (use inv in \<open>simp_all add: stays_def complain_inv\<close>)

subsection \<open>The code computes the closed form\<close>

definition call_result :: "allocation \<Rightarrow> api_call \<Rightarrow> machine \<Rightarrow> result" where
  "call_result al c s = (case departs c s of
     Some (site, u) \<Rightarrow> Goes (continues (next_context site u)) (switch_to site u)
   | None \<Rightarrow> Goes (Returns (fst (stays al c s))) (snd (stays al c s)))"

lemma perform_stays:
  "api al c s = Done (fst (stays al c s)) (snd (stays al c s)) \<Longrightarrow> departs c s = None \<Longrightarrow>
     perform al c s = call_result al c s"
  by (simp add: perform_def call_result_def)

lemma perform_departs:
  "api al c s = bnd (doContextSwitch site) k u \<Longrightarrow> departs c s = Some (site, u) \<Longrightarrow>
     switchable site u \<Longrightarrow> perform al c s = call_result al c s"
  by (simp only: perform_def call_result_def switch_settles option.case prod.case)

lemma block_eval:
  assumes inv: "sched_inv s" and t: "t \<noteq> 0" "t \<in> tids s"
  shows "block t s = (if flagged s t then Done 0 s
    else if t = currentTid s then bnd (doContextSwitch From_block) (\<lambda>_. ret 0) (self_blocked s)
    else Done 0 (blocked_state t s))"
proof -
  note d = sched_invD [OF inv]
  obtain th where th: "table s t = Some th" using t(2) sched_inv_tid [OF inv] by auto
  have fl: "flagged s t \<longleftrightarrow> didUserBlock th" using th by (simp add: flagged_iff)
  consider "didUserBlock th" | "\<not> didUserBlock th" "t \<noteq> currentTid s"
    | "\<not> didUserBlock th" "t = currentTid s" by blast
  then show ?thesis
  proof cases
    case 1
    then show ?thesis using block_flagged [OF th] fl by simp
  next
    case 2
    have "waiting_ok s t th" by (rule shape_waiting [OF d(1) th 2(2)])
    then have "block t s = Done 0 (blocked_state t s)"
      using block_ready [OF d(6,4) th 2(1)] block_blocked [OF d(6,4) th 2(1)]
      by (cases "state th") (auto simp: waiting_ok_def)
    then show ?thesis using 2 fl by simp
  next
    case 3
    have "state th = RUNNING" using sched_inv_current [OF inv] th 3(2) by auto
    then show ?thesis
      using block_self [OF d(6,4)] th 3 fl ready_not_empty [OF inv] t(1) by auto
  qed
qed

lemma getQuantums_known:
  assumes inv: "sched_inv s" and th: "table s t = Some th"
  shows "uthread_get_quantums t s
    = Done (quantumCount th) (s\<lparr>sigmask := sigmask s - {SIGVTALRM}\<rparr>)"
  using sched_invD(6) [OF inv] th table_tids [OF th]
  by (simp add: uthread_get_quantums_def getQuantums_def act_simps tids_def)

lemma getQuantums_unknown:
  assumes inv: "sched_inv s" and t: "table s t = None"
  shows "uthread_get_quantums t s = Done (-1) (s\<lparr>sigmask := insert SIGVTALRM (sigmask s),
    cerr := cerr s @ [err_invalid_tid]\<rparr>)"
proof -
  have "t \<notin> tids s" using t owned_None [OF sched_invD(4) [OF inv]] by blast
  then show ?thesis
    using sched_invD(6) [OF inv]
    by (simp add: uthread_get_quantums_def getQuantums_def act_simps tids_def err_invalid_tid_def)
qed

theorem call_eval:
  assumes inv: "sched_inv s" and al: "alloc_ok al s" and ok: "allowed s c"
    and max: "totalQuantums s < INT_MAX" and c: "c \<noteq> Terminate 0"
  shows "perform al c s = call_result al c s"
proof -
  note d = sched_invD [OF inv]
  have sw: "switchable site u" if "departs c s = Some (site, u)" for site u
    by (rule depart_switchable [OF inv max ok that])
  show ?thesis
  proof (cases c)
    case (Init q)
    with ok show ?thesis by (simp add: allowed_def)
  next
    case (Spawn entry)
    then show ?thesis
      using spawn_eval [OF d(6) al _ main_exists [OF d(1)]]
      by (intro perform_stays)
        (auto simp: stays_def complain_def uthread_spawn_def act_simps spawn_full)
  next
    case (Terminate t)
    consider "t \<notin> tids s" | "t \<in> tids s" "t \<noteq> currentTid s" | "t = currentTid s" by blast
    then show ?thesis
    proof cases
      case 1
      then have "t \<noteq> currentTid s" using d(11) by auto
      then show ?thesis
        using 1 Terminate by (intro perform_stays)
          (simp_all add: stays_def complain_def departs_def uthread_terminate_unknown d(4))
    next
      case 2
      then show ?thesis
        using Terminate c terminate_other [OF inv 2(1) _ 2(2)]
        by (intro perform_stays) (simp_all add: stays_def departs_def uthread_terminate_known inv)
    next
      case 3
      have dep: "departs c s = Some (From_terminate, self_terminated s)"
        using Terminate c 3 by (simp add: departs_def)
      show ?thesis
        using Terminate c 3 d(11) terminate_self [OF inv]
        by (intro perform_departs [OF _ dep sw [OF dep]]) (simp add: uthread_terminate_known inv)
    qed
  next
    case (Block t)
    consider "t = 0" | "t \<noteq> 0" "t \<notin> tids s" | "t \<noteq> 0" "t \<in> tids s" "flagged s t \<or> t \<noteq> currentTid s"
      | "t \<noteq> 0" "t \<in> tids s" "t = currentTid s" "\<not> flagged s t"
      by blast
    then show ?thesis
    proof cases
      case 1
      then show ?thesis
        using Block by (intro perform_stays)
          (simp_all add: stays_def complain_def departs_def uthread_block_def act_simps
            MAX_THREAD_NUM_def)
    next
      case 2
      then have "t \<noteq> currentTid s" using d(11) by auto
      then show ?thesis
        using 2 Block by (intro perform_stays)
          (simp_all add: stays_def complain_def departs_def uthread_block_unknown d(4))
    next
      case 3
      then show ?thesis
        using Block block_eval [OF inv 3(1,2)] by (intro perform_stays)
          (auto simp: stays_def departs_def uthread_block_known inv split: if_splits)
    next
      case 4
      then have dep: "departs c s = Some (From_block, self_blocked s)"
        using Block by (simp add: departs_def)
      show ?thesis
        using Block 4 block_eval [OF inv 4(1,2)]
        by (intro perform_departs [OF _ dep sw [OF dep]]) (simp add: uthread_block_known inv)
    qed
  next
    case (Resume t)
    show ?thesis
    proof (cases "t \<in> tids s")
      case False
      then show ?thesis
        using Resume by (intro perform_stays)
          (simp_all add: stays_def complain_def uthread_resume_unknown d(4))
    next
      case True
      then obtain th where th: "table s t = Some th" using sched_inv_tid [OF inv] by auto
      have t: "0 \<le> t" using tid_range [OF inv True] by simp
      show ?thesis
        using Resume True th resume_unblocked [OF th t] resume_blocked [OF d(6) th t]
        by (intro perform_stays)
          (simp_all add: stays_def blocked_in_def uthread_resume_known inv)
    qed
  next
    case (Sleep n)
    consider "n \<le> 0" | "0 < n" "currentTid s = 0" | "0 < n" "currentTid s \<noteq> 0" by linarith
    then show ?thesis
    proof cases
      case 3
      obtain th where th: "table s (currentTid s) = Some th" by (rule sched_inv_current [OF inv])
      have fits: "int_ok (totalQuantums s + n)"
        using ok d(9) 3(1) Sleep by (intro int_okI) (simp_all add: allowed_def)
      have dep: "departs c s = Some (From_sleep, put_to_sleep n s)"
        using 3 Sleep by (simp add: departs_def)
      show ?thesis
        using 3 Sleep sleep_eval [OF d(6,4) th fits ready_not_empty [OF inv 3(2)]]
        by (intro perform_departs [OF _ dep sw [OF dep]])
          (simp add: uthread_sleep_def getTid_def bnd_apply [of "reads _"] reads_apply ret_apply)
    qed ((rule perform_stays; simp add: Sleep stays_def complain_def departs_def
          uthread_sleep_def getTid_def act_simps)+)
  next
    case Get_tid
    then show ?thesis
      by (intro perform_stays) (simp_all add: stays_def uthread_get_tid_def getTid_def act_simps)
  next
    case Get_total_quantums
    then show ?thesis
      by (intro perform_stays)
        (simp_all add: stays_def uthread_get_total_quantums_def getTotalQuantums_def act_simps)
  next
    case (Get_quantums t)
    then show ?thesis
      using getQuantums_known [OF inv] getQuantums_unknown [OF inv]
      by (intro perform_stays) (auto simp: stays_def complain_def split: option.splits)
  qed
qed

lemma call_result_inv:
  assumes inv: "sched_inv s" and al: "alloc_ok al s" and ok: "allowed s c"
    and max: "totalQuantums s < INT_MAX" and c: "c \<noteq> Terminate 0"
  shows "\<exists>k t. call_result al c s = Goes k t \<and> sched_inv t \<and> k \<noteq> Comes_back From_terminate"
proof (cases "departs c s")
  case None
  then show ?thesis
    using stays_inv [OF inv al ok c None] by (simp add: call_result_def)
next
  case (Some p)
  obtain site u where p: "p = (site, u)" by (cases p)
  have sw: "switchable site u"
    using depart_switchable [OF inv max ok] Some p by simp
  have "continues (next_context site u) \<noteq> Comes_back From_terminate"
    using next_context_ok(2) [OF sw] by (auto simp: continues_def split: jmp_env.splits)
  then show ?thesis
    using Some p switch_to_inv [OF sw] by (simp add: call_result_def)
qed

end
