(* ===== verification/System.thy ===== *)
theory System
  imports Moves
begin

section \<open>The library in use: reachable states and safety\<close>

text \<open>
  The transition system of a process that uses the library: calls made by the running thread,
  timer ticks, and the rehashing of the two hash maps.  The locale carries invariants over to all
  reachable states; it is interpreted on the library's own steps.
\<close>

inductive reach :: "('s \<Rightarrow> bool) \<Rightarrow> ('s \<Rightarrow> 'e \<Rightarrow> 's \<Rightarrow> bool) \<Rightarrow> 's \<Rightarrow> bool"
  for start :: "'s \<Rightarrow> bool" and step :: "'s \<Rightarrow> 'e \<Rightarrow> 's \<Rightarrow> bool" where
  reach_start: "start s \<Longrightarrow> reach start step s"
| reach_step: "reach start step s \<Longrightarrow> step s e t \<Longrightarrow> reach start step t"

inductive_simps reach_iff: "reach start step s"

locale safe_system =
  fixes start :: "'s \<Rightarrow> bool"
    and step :: "'s \<Rightarrow> 'e \<Rightarrow> 's \<Rightarrow> bool"
    and inv :: "'s \<Rightarrow> bool"
  assumes inv_start: "start s \<Longrightarrow> inv s"
    and inv_step: "inv s \<Longrightarrow> step s e t \<Longrightarrow> inv t"
begin

lemma reach_inv: "reach start step s \<Longrightarrow> inv s"
  by (induction rule: reach.induct) (auto intro: inv_start inv_step)

lemma reach_step_inv: "reach start step s \<Longrightarrow> step s e t \<Longrightarrow> inv s \<and> inv t"
  by (blast intro: reach_inv inv_step)

end

subsection \<open>Initialisation\<close>

definition main_thread :: thread where
  "main_thread = \<lparr>env = Env_zero, thread_id = 0, state = RUNNING, stack = 0, quantumCount = 1,
     didUserBlock = False\<rparr>"

definition booted :: "address \<Rightarrow> int \<Rightarrow> address \<Rightarrow> sigset \<Rightarrow> machine" where
  "booted obj q g m = \<lparr>quantumUsecs = q, totalQuantums = 1, currentTid = 0,
     pendingDeletionTid = -1, threads = [(0, obj)], readyQueue = [], sleepingThreads = [],
     heap = [(obj, main_thread)], live_stacks = [], sigmask = m, handler_installed = True,
     itimer = Some (quantum_timer q), guard = g, failing = [], cerr = []\<rparr>"

lemma init_eval:
  assumes "0 < q" "obj_addr al \<noteq> 0"
  shows "uthread_init al q (boot g m []) = Done 0 (booted (obj_addr al) q g m)"
  using assms
  by (simp add: uthread_init_def sched_init_def boot_def act_simps new_Thread_def construct_main
      um_put_def um_find_def call_method_def setupSignalHandler_def booted_def main_thread_def
      int_ok_def INT_MAX_def INT_MIN_def)

lemma booted_table: "table (booted obj q g m) t = (if t = 0 then Some main_thread else None)"
  by (simp add: table_def booted_def um_find_def)

lemma booted_inv:
  assumes "0 < q" "obj \<noteq> 0"
  shows "sched_inv (booted obj q g m)"
proof -
  let ?s = "booted obj q g m"
  have "owned ?s"
    using assms(2) by (auto simp: owned_def booted_def um_ok_def um_keys_def um_find_def
        split: if_splits)
  moreover have "stacks_ok ?s"
    unfolding stacks_ok_def booted_table by (auto simp: main_thread_def booted_def split: if_splits)
  moreover have "tids ?s = {0}" "sleepers ?s = {}"
    by (simp_all add: tids_def sleepers_def booted_def um_keys_def)
  moreover have "currentTid ?s = 0" "readyQueue ?s = []" "failing ?s = []" "quantumUsecs ?s = q"
    "totalQuantums ?s = 1" "handler_installed ?s" "pendingDeletionTid ?s = -1"
    by (simp_all add: booted_def)
  ultimately show ?thesis
    using assms(1)
    by (simp add: sched_inv_def shape_def pend_ok_def mem_inv_def booted_table MAX_THREAD_NUM_def
        main_thread_def)
qed

subsection \<open>The steps of the process\<close>

definition lib_start :: "machine \<Rightarrow> bool" where
  "lib_start s \<longleftrightarrow> (\<exists>al q g m. 0 < q \<and> q \<le> INT_MAX \<and> obj_addr al \<noteq> 0
     \<and> uthread_init al q (boot g m []) = Done 0 s)"

datatype event = Called api_call control | Ticked control | Rehashed

inductive lib_step :: "machine \<Rightarrow> event \<Rightarrow> machine \<Rightarrow> bool" where
  call: "alloc_ok al s \<Longrightarrow> allowed s c \<Longrightarrow> totalQuantums s < INT_MAX \<Longrightarrow>
     perform al c s = Goes k t \<Longrightarrow> lib_step s (Called c k) t"
| timer: "tick_enabled s \<Longrightarrow> totalQuantums s < INT_MAX \<Longrightarrow> tick s = Goes k t \<Longrightarrow>
     lib_step s (Ticked k) t"
| rehash: "set ts = set (threads s) \<Longrightarrow> length ts = length (threads s) \<Longrightarrow>
     set sl = set (sleepingThreads s) \<Longrightarrow> length sl = length (sleepingThreads s) \<Longrightarrow>
     lib_step s Rehashed (s\<lparr>threads := ts, sleepingThreads := sl\<rparr>)"

inductive_cases call_stepE: "lib_step s (Called c k) t"
inductive_cases tick_stepE: "lib_step s (Ticked k) t"
inductive_cases rehash_stepE: "lib_step s Rehashed t"

lemma rehash_inv:
  assumes inv: "sched_inv s"
    and ts: "set ts = set (threads s)" "length ts = length (threads s)"
    and sl: "set sl = set (sleepingThreads s)" "length sl = length (sleepingThreads s)"
  shows "sched_inv (s\<lparr>threads := ts, sleepingThreads := sl\<rparr>)"
proof -
  let ?s = "s\<lparr>threads := ts, sleepingThreads := sl\<rparr>"
  have own: "owned s" by (rule sched_invD(4) [OF inv])
  note t = um_find_perm [OF owned_um_ok(1) [OF own] ts]
    and l = um_find_perm [OF owned_um_ok(3) [OF own] sl]
  have keys: "um_keys ts = um_keys (threads s)" "um_keys sl = um_keys (sleepingThreads s)"
    using t(2) l(2) by (auto simp: um.keys_find)
  then have eq: "tids (s\<lparr>threads := ts\<rparr>) = tids s" "sleepers ?s = sleepers s"
    by (simp_all add: tids_def sleepers_def)
  have tab: "table (s\<lparr>threads := ts\<rparr>) = table s"
    by (rule ext) (simp add: table_def t(2) split: option.splits)
  have "owned ?s" using own t l by (simp add: owned_def)
  moreover have "stacks_ok ?s"
    using sched_invD(5) [OF inv] by (simp add: stacks_ok_def tab)
  ultimately show ?thesis
    using inv by (simp add: sched_inv_def shape_def pend_ok_def mem_inv_def waiting_ok_def tab eq)
qed

lemma lib_start_inv: "lib_start s \<Longrightarrow> sched_inv s"
  by (auto simp: lib_start_def init_eval booted_inv)

lemma lib_step_inv:
  assumes "sched_inv s" and "lib_step s e t"
  shows "sched_inv t"
  using assms(2,1)
proof (induction rule: lib_step.induct)
  case (call al s c k t)
  have "c \<noteq> Terminate 0"
  proof
    assume c: "c = Terminate 0"
    have "perform al c s = settle (terminate 0 s)"
      using call.prems main_exists sched_invD(1)
      by (simp add: c perform_def uthread_terminate_known)
    with terminate_main [OF sched_invD(3,6) [OF call.prems]] call.hyps(4) show False by auto
  qed
  then show ?case
    using call call_eval [of s al c] call_result_inv [of s al c] by auto
next
  case (timer s k t)
  then show ?case using tick_inv by blast
next
  case (rehash ts s sl)
  then show ?case by (intro rehash_inv)
qed

interpretation lib: safe_system lib_start lib_step sched_inv
  by unfold_locales (auto intro: lib_start_inv lib_step_inv)

abbreviation reachable :: "machine \<Rightarrow> bool" where
  "reachable \<equiv> reach lib_start lib_step"

end
