(* ===== verification/Samples.thy ===== *)
theory Samples
  imports System
begin

section \<open>Concrete executions\<close>

text \<open>
  Scripts of events, run from the state after \<open>uthread_init\<close>, with the memory a simple allocator
  would hand out.  They provide the concrete inputs at which the properties are instantiated, and
  the executions that show where the code departs from its documentation.
\<close>

datatype command = Call api_call | Tick

text \<open>The \<open>n\<close>-th allocation: objects and stacks one page apart.\<close>

definition memory :: "nat \<Rightarrow> allocation" where
  "memory n = \<lparr>obj_addr = of_nat (4096 + 8192 * n), stack_addr = of_nat (8192 + 8192 * n)\<rparr>"

definition command_event :: "nat \<Rightarrow> command \<Rightarrow> machine \<Rightarrow> result" where
  "command_event n cmd s = (case cmd of
     Call c \<Rightarrow> perform (memory n) c s
   | Tick \<Rightarrow> tick s)"

fun play :: "nat \<Rightarrow> command list \<Rightarrow> machine \<Rightarrow> result" where
  "play n [] s = Goes (Returns 0) s"
| "play n [cmd] s = command_event n cmd s"
| "play n (cmd # cmds) s = (case command_event n cmd s of
     Halts e t \<Rightarrow> Halts e t
   | Goes k t \<Rightarrow> play (Suc n) cmds t)"

definition legal_command :: "nat \<Rightarrow> command \<Rightarrow> machine \<Rightarrow> bool" where
  "legal_command n cmd s \<longleftrightarrow> totalQuantums s < INT_MAX \<and> (case cmd of
     Call c \<Rightarrow> alloc_ok (memory n) s \<and> allowed s c
   | Tick \<Rightarrow> tick_enabled s)"

fun legal :: "nat \<Rightarrow> command list \<Rightarrow> machine \<Rightarrow> bool" where
  "legal n [] s = True"
| "legal n (cmd # cmds) s = (legal_command n cmd s \<and> (case command_event n cmd s of
     Halts e t \<Rightarrow> False
   | Goes k t \<Rightarrow> legal (Suc n) cmds t))"

text \<open>A legal script ends in a reachable state.\<close>

lemma legal_step:
  assumes "reachable s" "legal_command n cmd s" "command_event n cmd s = Goes k t"
  shows "reachable t"
  using assms
  by (cases cmd) (auto simp: legal_command_def command_event_def
      intro: reach_step lib_step.call lib_step.timer)

lemma legal_reachable:
  "reachable s \<Longrightarrow> legal n cmds s \<Longrightarrow> play n cmds s = Goes k t \<Longrightarrow> reachable t"
proof (induction n cmds s rule: play.induct)
  case (2 n cmd s)
  then show ?case by (auto split: result.splits intro: legal_step)
next
  case (3 n cmd cmd' cmds s)
  then show ?case by (auto split: result.splits intro: legal_step)
qed simp

text \<open>The state after \<open>uthread_init(1000)\<close> and a script.\<close>

definition first_state :: machine where
  "first_state = booted 4096 1000 81985529216486895 {}"

lemma first_start: "uthread_init (memory 0) 1000 (boot 81985529216486895 {} []) = Done 0 first_state"
  by (simp add: init_eval memory_def first_state_def)

lemma first_reachable: "reachable first_state"
proof (rule reach_start)
  have "obj_addr (memory 0) \<noteq> 0" "(0 :: int) < 1000" "(1000 :: int) \<le> INT_MAX"
    by (simp_all add: memory_def INT_MAX_def)
  with first_start show "lib_start first_state" unfolding lib_start_def by blast
qed

definition after :: "command list \<Rightarrow> machine" where
  "after cmds = (case play 1 cmds first_state of Goes k t \<Rightarrow> t | Halts e t \<Rightarrow> t)"

definition goes_well :: "command list \<Rightarrow> bool" where
  "goes_well cmds \<longleftrightarrow> legal 1 cmds first_state
     \<and> (case play 1 cmds first_state of Goes k t \<Rightarrow> True | Halts e t \<Rightarrow> False)"

lemma after_reachable: "goes_well cmds \<Longrightarrow> reachable (after cmds)"
  using legal_reachable [OF first_reachable]
  by (auto simp: goes_well_def after_def split: result.splits)

subsection \<open>Evaluating scripts\<close>

text \<open>
  The definitions a script runs through, as rewrite rules.  Mangled addresses stay symbolic:
  nothing in the scheduler inspects them.
\<close>

lemmas container_code =
  um_find_def um_put_def um_erase_def um_count_def um_keys_def q_push_def q_front_def q_pop_def
  q_empty_def

lemmas platform_code =
  int_ok_def INT_MAX_def INT_MIN_def SIGVTALRM_def sigemptyset_def MAX_THREAD_NUM_def Thread_construct_def
  Thread_destruct_def main_thread_def booted_def first_state_def memory_def

lemmas scheduler_code =
  print_err_def new_Thread_def available_from.simps nextAvailableTid_def push_ready_def
  spawn_with_def spawn_def terminate_def block_def resume_def sleep_def getTid_def
  getThreadById_def getTotalQuantums_def getQuantums_def on_thread_def call_method_def
  threads_at_def deref_def ask_thread_def doContextSwitch_def switch_return_def timerHandler_def
  wakeSleepingThreads_def delete_thread_def

lemmas interface_code =
  uthread_spawn_def uthread_terminate_def uthread_block_def uthread_resume_def uthread_sleep_def
  uthread_get_tid_def uthread_get_total_quantums_def uthread_get_quantums_def
  err_invalid_tid_def err_no_thread_def perform_def tick_def command_event_def after_def

lemmas run_simps =
  act_simps container_code platform_code scheduler_code interface_code

lemmas state_simps =
  goes_well_def legal_command_def alloc_ok_def allowed_def tick_enabled_def tids_def sleepers_def
  terminated_in_def blocked_in_def terminated_def table_def flagged_def

text \<open>Some reachable states: two threads spawned; the first of them running; asleep; blocked.\<close>

lemma sample_spawned: "reachable (after [Call (Spawn 77), Call (Spawn 88)])"
  by (rule after_reachable) (simp add: run_simps state_simps)

lemma sample_running: "reachable (after [Call (Spawn 77), Call (Spawn 88), Tick])"
  by (rule after_reachable) (simp add: run_simps state_simps)

lemma sample_asleep: "reachable (after [Call (Spawn 77), Call (Spawn 88), Tick, Call (Sleep 1)])"
  by (rule after_reachable) (simp add: run_simps state_simps)

lemma sample_blocked: "reachable (after [Call (Spawn 77), Call (Spawn 88), Call (Block 1)])"
  by (rule after_reachable) (simp add: run_simps state_simps)

lemma sample_zombie: "reachable (after [Call (Spawn 77), Call (Spawn 88), Tick, Call (Terminate 1)])"
  by (rule after_reachable) (simp add: run_simps state_simps)

end
