(* ===== verification/Safety.thy ===== *)
theory Safety
  imports Samples
begin

section \<open>Safety of the library in use\<close>

text \<open>
  What holds in every state a process can reach through calls that respect the conditions of
  \<open>allowed\<close> and through timer ticks: no fault, one running thread, no lost thread, no leaked and
  no shared memory.
\<close>

lemmas reachable_inv = lib.reach_inv

text \<open>The calls and ticks of a reachable state lead to reachable states.\<close>

lemma reachable_call:
  "reachable s \<Longrightarrow> alloc_ok al s \<Longrightarrow> allowed s c \<Longrightarrow> totalQuantums s < INT_MAX \<Longrightarrow>
     perform al c s = Goes k t \<Longrightarrow> reachable t"
  by (rule reach_step, assumption, rule lib_step.call)

lemma reachable_tick:
  "reachable s \<Longrightarrow> tick_enabled s \<Longrightarrow> totalQuantums s < INT_MAX \<Longrightarrow> tick s = Goes k t \<Longrightarrow>
     reachable t"
  by (rule reach_step, assumption, rule lib_step.timer)

subsection \<open>No undefined behaviour\<close>

text \<open>C1: from every reachable state, every call that respects the client's obligations (other
  than ending the process) brings some thread back to user code in a reachable state: there is
  no null or dangling dereference, no double free, no signed overflow, no jump to a context that
  was not saved, no exit, and never a return from \<open>uthread_terminate\<close> of a thread that terminated
  itself.\<close>

theorem call_safe:
  assumes "reachable s" "alloc_ok al s" "allowed s c" "totalQuantums s < INT_MAX"
    "c \<noteq> Terminate 0"
  shows "\<exists>k t. perform al c s = Goes k t \<and> reachable t \<and> k \<noteq> Comes_back From_terminate"
  using call_eval [OF reachable_inv] call_result_inv [OF reachable_inv] reachable_call assms
  by metis

theorem call_safe_witness:
  "\<exists>k t. perform (memory 9) (Sleep 5) (after [Call (Spawn 77), Call (Spawn 88), Tick]) = Goes k t
     \<and> reachable t \<and> k \<noteq> Comes_back From_terminate"
  by (rule call_safe [OF sample_running]) (simp_all add: run_simps state_simps)

text \<open>C2: from every reachable state in which the timer signal is unmasked, the timer handler
  runs without a fault, hands the processor to a thread that is not terminated, and leaves the
  signal unmasked for the next tick.\<close>

theorem tick_safe:
  assumes "reachable s" "tick_enabled s" "totalQuantums s < INT_MAX"
  shows "\<exists>k t. tick s = Goes k t \<and> reachable t \<and> tick_enabled t \<and> k \<noteq> Comes_back From_terminate"
proof -
  have m: "SIGVTALRM \<notin> sigmask s" using assms(2) by (simp add: tick_enabled_def)
  note sw = tick_switchable [OF reachable_inv [OF assms(1)] assms(3) m]
  have "continues (next_context (From_timer (sigmask s)) (before_tick_switch s))
      \<noteq> Comes_back From_terminate"
    using next_context_ok(2) [OF sw] by (auto simp: continues_def split: jmp_env.splits)
  then show ?thesis
    using tick_eval [OF reachable_inv [OF assms(1)] assms(3,2)] reachable_tick [OF assms]
      switch_to_tick_enabled [OF sw] by auto
qed

theorem tick_safe_witness:
  "\<exists>k t. tick (after [Call (Spawn 77), Call (Spawn 88), Tick, Call (Sleep 1)]) = Goes k t
     \<and> reachable t \<and> tick_enabled t \<and> k \<noteq> Comes_back From_terminate"
  by (rule tick_safe [OF sample_asleep]) (simp_all add: run_simps state_simps)

subsection \<open>Threads\<close>

text \<open>C3: in every reachable state exactly one thread is RUNNING, the current one; every entry of
  the ready queue is a thread of the table; and the main thread is running or in the ready
  queue.\<close>

theorem one_running_thread:
  assumes "reachable s"
  shows "(\<forall>t. (\<exists>th. table s t = Some th \<and> state th = RUNNING) = (t = currentTid s))
    \<and> set (readyQueue s) \<subseteq> tids s
    \<and> (currentTid s = 0 \<or> 0 \<in> set (readyQueue s))"
proof -
  note inv = reachable_inv [OF assms] and d = sched_invD [OF reachable_inv [OF assms]]
  have "(\<exists>th. table s t = Some th \<and> state th = RUNNING) = (t = currentTid s)" for t
    using shape_waiting [OF d(1)] sched_inv_current [OF inv] by (fastforce simp: waiting_ok_def)
  with d(12,14) show ?thesis by blast
qed

theorem one_running_thread_witness:
  "\<exists>th. table (after [Call (Spawn 77), Call (Spawn 88), Tick]) 1 = Some th \<and> state th = RUNNING"
  using one_running_thread [OF sample_running] by (simp add: run_simps state_simps)

text \<open>C4: no thread is lost.  In every reachable state a thread other than the current one is
  READY and in the ready queue, or BLOCKED, outside the queue and there for a reason (the user
  blocked it or it has a deadline), or it has terminated itself and never runs again.\<close>

theorem no_lost_thread:
  assumes "reachable s" "table s t = Some th" "t \<noteq> currentTid s"
  shows "state th = READY \<and> t \<in> set (readyQueue s) \<and> \<not> terminated th
    \<or> state th = BLOCKED \<and> t \<notin> set (readyQueue s) \<and> (didUserBlock th \<or> t \<in> sleepers s)
    \<or> terminated th \<and> t \<notin> set (readyQueue s) \<and> t \<notin> sleepers s"
  using shape_waiting [OF sched_invD(1) [OF reachable_inv [OF assms(1)]] assms(2,3)]
  by (cases "state th") (auto simp: waiting_ok_def)

theorem no_lost_thread_witness:
  "\<exists>th. table (after [Call (Spawn 77), Call (Spawn 88), Call (Block 1)]) 1 = Some th
     \<and> state th = BLOCKED \<and> didUserBlock th"
proof -
  let ?s = "after [Call (Spawn 77), Call (Spawn 88), Call (Block 1)]"
  obtain th where th: "table ?s 1 = Some th" "state th = BLOCKED" "\<not> terminated th"
    "1 \<notin> sleepers ?s" "1 \<noteq> currentTid ?s"
    by (simp add: run_simps state_simps)
  from no_lost_thread [OF sample_blocked th(1,5)] th show ?thesis by auto
qed

subsection \<open>Memory\<close>

lemma owned_objects:
  assumes own: "owned s" and st: "stacks_ok s"
  shows "\<forall>t \<in> tids s. \<exists>p th. um_find (threads s) t = Some p \<and> um_find (heap s) p = Some th
    \<and> p \<noteq> 0 \<and> thread_id th = t"
proof
  fix t
  assume "t \<in> tids s"
  then obtain th where th: "table s t = Some th" using owned_table [OF own] by auto
  then obtain p where p: "um_find (threads s) t = Some p" "um_find (heap s) p = Some th"
    by (rule table_SomeE)
  have "thread_id th = t" using st th by (simp add: stacks_ok_def)
  with p show "\<exists>p th. um_find (threads s) t = Some p \<and> um_find (heap s) p = Some th
      \<and> p \<noteq> 0 \<and> thread_id th = t"
    using owned_nonnull [OF own, of t] by auto
qed

text \<open>C5: the thread table owns the library's memory.  In every reachable state every table entry
  points to a live object that knows its own thread ID, no object is reachable under two IDs, no
  object is unreachable, the live stacks are exactly the stacks of the spawned threads and no
  two threads share one, and IDs stay below \<open>MAX_THREAD_NUM\<close>.\<close>

theorem memory_owned:
  assumes "reachable s"
  shows "(\<forall>t \<in> tids s. \<exists>p th. um_find (threads s) t = Some p \<and> um_find (heap s) p = Some th
        \<and> p \<noteq> 0 \<and> thread_id th = t)
    \<and> (\<forall>p \<in> um_keys (heap s). \<exists>!t. um_find (threads s) t = Some p)
    \<and> (\<forall>b. b \<in> set (live_stacks s) \<longleftrightarrow> (\<exists>t th. table s t = Some th \<and> t \<noteq> 0 \<and> stack th = b))
    \<and> (\<forall>t u th uh. table s t = Some th \<longrightarrow> table s u = Some uh \<longrightarrow> stack th = stack uh \<longrightarrow> t = u)
    \<and> tids s \<subseteq> {0..<MAX_THREAD_NUM}"
proof -
  note d = sched_invD [OF reachable_inv [OF assms]]
  have "\<forall>p \<in> um_keys (heap s). \<exists>!t. um_find (threads s) t = Some p"
    using d(4) unfolding owned_def by metis
  with owned_objects [OF d(4,5)] d(5,10) show ?thesis
    by (simp add: stacks_ok_def)
qed

theorem memory_owned_witness:
  "thread_id (the (um_find (heap (after [Call (Spawn 77), Call (Spawn 88)])) 20480)) = 2"
proof -
  let ?s = "after [Call (Spawn 77), Call (Spawn 88)]"
  have t: "2 \<in> tids ?s" "um_find (threads ?s) 2 = Some 20480"
    by (simp_all add: run_simps state_simps)
  with memory_owned [OF sample_spawned] show ?thesis by force
qed

text \<open>From every reachable state \<open>uthread_terminate(0)\<close> ends the process with status 0 after
  releasing every thread object and every stack, each exactly once.\<close>

lemma terminate_main_releases_all:
  assumes "reachable s"
  shows "\<exists>t. perform al (Terminate 0) s = Halts (Exit 0) t
    \<and> threads t = [] \<and> heap t = [] \<and> live_stacks t = []"
proof -
  note inv = reachable_inv [OF assms]
  have "perform al (Terminate 0) s = settle (terminate 0 s)"
    using main_exists [OF sched_invD(1) [OF inv]]
    by (simp add: perform_def uthread_terminate_known inv)
  with terminate_main [OF sched_invD(3,6) [OF inv]] show ?thesis by auto
qed

end
