(* ===== verification/Ticks.thy ===== *)
theory Ticks
  imports Safety
begin

section \<open>Time: round robin, quantum accounting, waking\<close>

text \<open>
  What the timer handler does over one and over many ticks: the ready queue is served first come
  first served, every switch counts one quantum for the process and one for the thread that gets
  the processor, and exactly the threads whose deadline has come are woken.
\<close>

subsection \<open>One tick\<close>

text \<open>The queue the handler takes the next thread from.\<close>

definition tick_queue :: "machine \<Rightarrow> int list" where
  "tick_queue s = readyQueue s @ wakes s (sleepingThreads s)
     @ (if tids s = {currentTid s} then [] else [currentTid s])"

definition after_tick :: "machine \<Rightarrow> machine" where
  "after_tick s = switch_to (From_timer (sigmask s)) (before_tick_switch s)"

lemma before_tick_frame [simp, frame_simps]:
  "currentTid (before_tick_switch s) = currentTid s" "tids (before_tick_switch s) = tids s"
  "threads (before_tick_switch s) = threads s"
  "pendingDeletionTid (before_tick_switch s) = pendingDeletionTid s"
  "totalQuantums (before_tick_switch s) = totalQuantums s"
  "quantumUsecs (before_tick_switch s) = quantumUsecs s"
  "sleepingThreads (before_tick_switch s) = sleepingThreads (woken s)"
  "cerr (before_tick_switch s) = cerr s" "guard (before_tick_switch s) = guard s"
  by (simp_all add: before_tick_switch_def)

lemma before_tick_table:
  "owned s \<Longrightarrow> table (before_tick_switch s) t = (if t \<in> set (wakes s (sleepingThreads s))
     then map_option (\<lambda>th. th\<lparr>state := READY\<rparr>) (table s t) else table s t)"
  by (simp add: before_tick_switch_def woken_table)

lemma before_tick_thread:
  assumes "owned s" "table s t = Some th"
  shows "\<exists>b. table (before_tick_switch s) t = Some b \<and> env b = env th
    \<and> quantumCount b = quantumCount th"
  using assms(2)
  by (cases "t \<in> set (wakes s (sleepingThreads s))") (auto simp: before_tick_table [OF assms(1)])

lemma tick_ready:
  assumes "sched_inv s" "tick_enabled s" "totalQuantums s < INT_MAX"
  shows "switchable (From_timer (sigmask s)) (before_tick_switch s)"
    and "\<exists>k. tick s = Goes k (after_tick s)"
    and "next_queue (before_tick_switch s) = tick_queue s"
proof -
  have m: "SIGVTALRM \<notin> sigmask s" using assms(2) by (simp add: tick_enabled_def)
  show sw: "switchable (From_timer (sigmask s)) (before_tick_switch s)"
    by (rule tick_switchable [OF assms(1,3) m])
  show "\<exists>k. tick s = Goes k (after_tick s)"
    using tick_eval [OF assms(1,3,2)] by (simp add: after_tick_def)
  have "readyQueue (before_tick_switch s) = readyQueue s @ wakes s (sleepingThreads s)"
    using woken_queue [OF sched_invD(4) [OF assms(1)]] by (simp add: before_tick_switch_def)
  then show "next_queue (before_tick_switch s) = tick_queue s"
    using requeues_iff [OF sw] by (simp add: next_queue_def tick_queue_def)
qed

lemma tick_next:
  assumes "sched_inv s" "tick_enabled s" "totalQuantums s < INT_MAX"
  shows "currentTid (after_tick s) = (if tick_queue s = [] then currentTid s else hd (tick_queue s))"
    and "readyQueue (after_tick s) = tl (tick_queue s)"
    and "totalQuantums (after_tick s) = totalQuantums s + 1"
  using tick_ready(3) [OF assms] by (simp_all add: after_tick_def next_tid_def)

lemma after_tick_reachable:
  assumes "reachable s" "tick_enabled s" "totalQuantums s < INT_MAX"
  shows "reachable (after_tick s)" and "tick_enabled (after_tick s)"
proof -
  obtain k where "tick s = Goes k (after_tick s)"
    using tick_ready(2) [OF reachable_inv [OF assms(1)] assms(2,3)] by auto
  with reachable_tick [OF assms] tick_inv(2) [OF reachable_inv [OF assms(1)] assms(3,2)]
  show "reachable (after_tick s)" "tick_enabled (after_tick s)" by auto
qed

subsection \<open>Many ticks\<close>

fun ticks :: "nat \<Rightarrow> machine \<Rightarrow> machine option" where
  "ticks 0 s = Some s"
| "ticks (Suc n) s = (case tick s of Halts e t \<Rightarrow> None | Goes k t \<Rightarrow> ticks n t)"

lemma ticks_Suc:
  assumes "reachable s" "tick_enabled s" "totalQuantums s < INT_MAX"
  shows "ticks (Suc n) s = ticks n (after_tick s)"
  using tick_ready(2) [OF reachable_inv [OF assms(1)] assms(2,3)] by auto

text \<open>A tick moves every waiting entry of the queue one place forward.\<close>

lemma tick_shifts:
  assumes "sched_inv s" "tick_enabled s" "totalQuantums s < INT_MAX"
    and "Suc i < length (readyQueue s)"
  shows "i < length (readyQueue (after_tick s))"
    and "readyQueue (after_tick s) ! i = readyQueue s ! Suc i"
  using assms(4) tick_next(2) [OF assms(1-3)]
  by (simp_all add: tick_queue_def nth_tl nth_append)

lemma ticks_serve:
  assumes "reachable s" "tick_enabled s" "i < length (readyQueue s)"
    and "totalQuantums s + int i < INT_MAX"
  shows "\<exists>u. ticks (Suc i) s = Some u \<and> currentTid u = readyQueue s ! i \<and> reachable u
    \<and> totalQuantums u = totalQuantums s + int i + 1"
  using assms
proof (induction i arbitrary: s)
  case 0
  note inv = reachable_inv [OF 0(1)]
  have max: "totalQuantums s < INT_MAX" using 0(4) by simp
  have q: "readyQueue s \<noteq> []" using 0(3) by simp
  have "currentTid (after_tick s) = readyQueue s ! 0"
    using tick_next(1) [OF inv 0(2) max] q by (simp add: tick_queue_def hd_conv_nth nth_append)
  then show ?case
    using ticks_Suc [OF 0(1,2) max, of 0] after_tick_reachable [OF 0(1,2) max]
      tick_next(3) [OF inv 0(2) max] by simp
next
  case (Suc i)
  note inv = reachable_inv [OF Suc.prems(1)]
  have max: "totalQuantums s < INT_MAX" using Suc.prems(4) by simp
  note sh = tick_shifts [OF inv Suc.prems(2) max Suc.prems(3)]
    and tq = tick_next(3) [OF inv Suc.prems(2) max]
  have "totalQuantums (after_tick s) + int i < INT_MAX" using Suc.prems(4) tq by simp
  from Suc.IH [OF after_tick_reachable [OF Suc.prems(1,2) max] sh(1) this]
  show ?case
    using sh(2) tq ticks_Suc [OF Suc.prems(1,2) max, of "Suc i"] by auto
qed

text \<open>C9: round robin.  From any reachable state a thread at position \<open>i\<close> of the ready queue is
  running after exactly \<open>i + 1\<close> timer ticks, whatever other threads wake up meanwhile: no thread in
  the queue starves, and the bound is the number of entries before it plus one.\<close>

theorem round_robin:
  assumes "reachable s" "tick_enabled s" "i < length (readyQueue s)"
    and "totalQuantums s + int i < INT_MAX"
  shows "\<exists>u. ticks (Suc i) s = Some u \<and> currentTid u = readyQueue s ! i \<and> reachable u"
  using ticks_serve [OF assms] by blast

theorem round_robin_witness:
  "\<exists>u. ticks 2 (after [Call (Spawn 77), Call (Spawn 88), Tick]) = Some u \<and> currentTid u = 0"
proof -
  let ?s = "after [Call (Spawn 77), Call (Spawn 88), Tick]"
  have "tick_enabled ?s" "1 < length (readyQueue ?s)" "readyQueue ?s ! 1 = 0"
    "totalQuantums ?s + int 1 < INT_MAX"
    by (simp_all add: run_simps state_simps)
  with round_robin [OF sample_running, of 1] show ?thesis
    by (auto simp: numeral_2_eq_2)
qed

subsection \<open>Quantum accounting\<close>

text \<open>C21: a tick starts one quantum.  The total grows by one, the count of the thread that gets the
  processor grows by one, every other thread keeps its count, and the virtual interval timer is
  armed again with the configured quantum.\<close>

theorem tick_counts_one_quantum:
  assumes "reachable s" "tick_enabled s" "totalQuantums s < INT_MAX" "tick s = Goes k u"
  shows "totalQuantums u = totalQuantums s + 1
    \<and> itimer u = Some (quantum_timer (quantumUsecs s))
    \<and> (\<forall>t \<in> tids u. \<exists>a b. table s t = Some a \<and> table u t = Some b
         \<and> quantumCount b = quantumCount a + (if t = currentTid u then 1 else 0))"
proof -
  note inv = reachable_inv [OF assms(1)]
  note own = sched_invD(4) [OF inv]
  let ?b = "before_tick_switch s"
  have u: "u = after_tick s"
    using tick_ready(2) [OF inv assms(2,3)] assms(4) by auto
  have "\<exists>a b. table s t = Some a \<and> table u t = Some b
       \<and> quantumCount b = quantumCount a + (if t = currentTid u then 1 else 0)"
    if t: "t \<in> tids u" for t
  proof -
    have ob: "owned ?b" using switchableD(3) [OF tick_ready(1) [OF inv assms(2,3)]] .
    have "sched_inv u" using switch_to_inv [OF tick_ready(1) [OF inv assms(2,3)]]
      by (simp add: u after_tick_def)
    then obtain b where b: "table u t = Some b" using t sched_inv_tid by auto
    then obtain c where c: "table ?b t = Some c" "b = switch_thread (From_timer (sigmask s)) ?b t c"
      unfolding u after_tick_def by (auto simp: table_switch_to [OF ob] split: if_splits)
    then obtain a where "table s t = Some a" "quantumCount c = quantumCount a"
      by (auto simp: before_tick_table [OF own] split: if_splits)
    then show ?thesis
      using b c(2) by (simp add: u after_tick_def switch_thread_def Let_def inc_def)
  qed
  then show ?thesis by (simp add: u after_tick_def)
qed

theorem tick_counts_one_quantum_witness:
  "\<exists>k u b. tick (after [Call (Spawn 77), Call (Spawn 88)]) = Goes k u
     \<and> currentTid u = 1 \<and> table u 1 = Some b \<and> quantumCount b = 1"
proof -
  let ?s = "after [Call (Spawn 77), Call (Spawn 88)]"
  obtain k u where u: "tick ?s = Goes k u" "currentTid u = 1" "1 \<in> tids u"
    by (simp add: run_simps state_simps)
  have "tick_enabled ?s" "totalQuantums ?s < INT_MAX" by (simp_all add: run_simps state_simps)
  from tick_counts_one_quantum [OF sample_spawned this u(1)] u(3)
  obtain a b where ab: "table ?s 1 = Some a" "table u 1 = Some b"
    "quantumCount b = quantumCount a + (if 1 = currentTid u then 1 else 0)" by blast
  moreover have "quantumCount a = 0" using ab(1) by (auto simp: run_simps state_simps)
  ultimately show ?thesis using u by auto
qed

subsection \<open>Waking\<close>

lemma sleeping_due:
  assumes "owned s"
  shows "set (wakes s (sleepingThreads s)) = {t. \<exists>d. um_find (sleepingThreads s) t = Some d
    \<and> d \<le> totalQuantums s \<and> \<not> flagged s t}"
  using um_find_set [OF owned_um_ok(3) [OF assms]] by (force simp: wakes_def due_def)

lemma sleeping_distinct:
  assumes "owned s"
  shows "distinct (wakes s (sleepingThreads s))"
  using owned_um_ok(3) [OF assms]
  by (simp add: wakes_def due_def um_ok_def distinct_map_filter filter_filter)

lemma still_asleep:
  assumes "owned s"
  shows "um_find (sleepingThreads (woken s)) t = Some d
    \<longleftrightarrow> um_find (sleepingThreads s) t = Some d \<and> totalQuantums s < d"
proof -
  note ok = owned_um_ok(3) [OF assms]
  have "um_ok (sleepingThreads (woken s))"
    using ok unfolding woken_sleeping [OF ok] by (simp add: um_ok_def distinct_map_filter)
  from um_find_set [OF this] um_find_set [OF ok] show ?thesis
    by (auto simp: woken_sleeping [OF ok])
qed

text \<open>C12: waking.  A tick removes from the sleeping table exactly the deadlines that have come, and
  puts exactly those of their threads that the user has not blocked into the ready queue, once
  each, between the threads that waited and the thread that was running.  The order among
  threads that wake together is the only thing the iteration order of the hash map decides.\<close>

theorem tick_wakes_exactly_the_due:
  assumes "reachable s" "tick_enabled s" "totalQuantums s < INT_MAX" "tick s = Goes k u"
  shows "(\<forall>t d. um_find (sleepingThreads u) t = Some d \<longleftrightarrow>
        um_find (sleepingThreads s) t = Some d \<and> totalQuantums s < d)
    \<and> (\<exists>ws. distinct ws
        \<and> set ws = {t. \<exists>d th. um_find (sleepingThreads s) t = Some d \<and> d \<le> totalQuantums s
             \<and> table s t = Some th \<and> \<not> didUserBlock th}
        \<and> currentTid u # readyQueue u = readyQueue s @ ws
             @ (if tids s = {currentTid s} \<and> readyQueue s \<noteq> [] then [] else [currentTid s]))"
proof -
  note inv = reachable_inv [OF assms(1)]
  note d = sched_invD [OF inv]
  let ?ws = "wakes s (sleepingThreads s)"
  have u: "u = after_tick s" using tick_ready(2) [OF inv assms(2,3)] assms(4) by auto
  have sl: "sleepingThreads u = sleepingThreads (woken s)" by (simp add: u after_tick_def)
  have "um_find (sleepingThreads u) t = Some d \<longleftrightarrow>
      um_find (sleepingThreads s) t = Some d \<and> totalQuantums s < d" for t d
    by (simp add: sl still_asleep [OF d(4)])
  moreover have "set ?ws = {t. \<exists>d th. um_find (sleepingThreads s) t = Some d \<and> d \<le> totalQuantums s
      \<and> table s t = Some th \<and> \<not> didUserBlock th}"
    by (auto simp: sleeping_due [OF d(4)] flagged_def split: option.splits)
  moreover have "currentTid u # readyQueue u = readyQueue s @ ?ws
      @ (if tids s = {currentTid s} \<and> readyQueue s \<noteq> [] then [] else [currentTid s])"
  proof (cases "tids s = {currentTid s}")
    case True
    then have "currentTid s = 0" using main_exists [OF d(1)] by auto
    then have "sleepers s = {}" using d(13) True by auto
    then have "?ws = []" by (auto simp: wakes_def due_def sleepers_def um_keys_def)
    then show ?thesis
      using True tick_next [OF inv assms(2,3)] by (simp add: u tick_queue_def)
  next
    case False
    then show ?thesis
      using tick_next [OF inv assms(2,3)] by (simp add: u tick_queue_def)
  qed
  ultimately show ?thesis using sleeping_distinct [OF d(4)] by blast
qed

theorem tick_wakes_exactly_the_due_witness:
  "\<exists>k u. tick (after [Call (Spawn 77), Call (Spawn 88), Tick, Call (Sleep 1)]) = Goes k u
     \<and> um_find (sleepingThreads u) 1 = None \<and> 1 \<in> set (currentTid u # readyQueue u)"
proof -
  let ?s = "after [Call (Spawn 77), Call (Spawn 88), Tick, Call (Sleep 1)]"
  have s: "tick_enabled ?s" "totalQuantums ?s < INT_MAX"
    by (simp_all add: run_simps state_simps)
  obtain k u where u: "tick ?s = Goes k u" by (simp add: run_simps state_simps)
  obtain th where th: "um_find (sleepingThreads ?s) 1 = Some 3" "totalQuantums ?s = 3"
    "table ?s 1 = Some th" "\<not> didUserBlock th"
    by (simp add: run_simps state_simps)
  note w = tick_wakes_exactly_the_due [OF sample_asleep s u]
  have "um_find (sleepingThreads u) 1 \<noteq> Some d" for d using w th(1,2) by auto
  then have "um_find (sleepingThreads u) 1 = None" by (metis not_None_eq)
  moreover obtain ws where "1 \<in> set ws" "set ws \<subseteq> set (currentTid u # readyQueue u)"
    using w th by fastforce
  ultimately show ?thesis using u by blast
qed

end
