(* ===== verification/Accounting.thy ===== *)
theory Accounting
  imports Ticks
begin

section \<open>What a step does to the threads it is not about\<close>

text \<open>
  Frame lemmas for whole steps of the process, and two invariants that follow from them by the
  induction of \<open>safe_system\<close>: the quanta of the living threads never exceed the total, and a
  thread blocked by the user stays blocked until somebody resumes or terminates it.
\<close>

lemma current_running:
  "sched_inv s \<Longrightarrow> table s (currentTid s) = Some th \<Longrightarrow> state th = RUNNING"
  by (auto simp: sched_inv_def)

lemma reach_mono:
  "reach start step s \<Longrightarrow> (\<And>s. start s \<Longrightarrow> start' s) \<Longrightarrow> reach start' step s"
  by (induction rule: reach.induct) (auto intro: reach_start reach_step)

text \<open>The state a departing call switches from differs from the caller's in the caller only.\<close>

lemma depart_table:
  assumes "owned s" "departs c s = Some (site, u)"
  shows "\<exists>f. table u = (table s)(currentTid s := map_option f (table s (currentTid s)))
    \<and> (\<forall>th. quantumCount (f th) = quantumCount th)"
  using assms
  by (cases c) (auto simp: departs_def self_blocked_def self_terminated_def put_to_sleep_def
      split: if_splits intro!: exI)

lemma depart_frame:
  assumes "departs c s = Some (site, u)"
  shows "currentTid u = currentTid s" "tids u = tids s" "totalQuantums u = totalQuantums s"
    "readyQueue u = readyQueue s" "threads u = threads s"
    "quantumUsecs u = quantumUsecs s" "cerr u = cerr s"
  using assms
  by (auto simp: departs_def self_blocked_def self_terminated_def put_to_sleep_def
      split: api_call.splits if_splits)

text \<open>One case distinction for all steps of a process.\<close>

lemma step_cases [consumes 2, case_names stay depart tick rehash]:
  assumes step: "lib_step s e t" and inv: "sched_inv s"
  obtains (stay) al c where "alloc_ok al s" "allowed s c" "departs c s = None" "c \<noteq> Terminate 0"
      "e = Called c (Returns (fst (stays al c s)))" "t = snd (stays al c s)"
  | (depart) c site u k where "allowed s c" "departs c s = Some (site, u)" "switchable site u"
      "e = Called c k" "t = switch_to site u" "k = continues (next_context site u)"
  | (tick) k where "tick_enabled s" "totalQuantums s < INT_MAX" "e = Ticked k" "t = after_tick s"
      "k = continues (next_context (From_timer (sigmask s)) (before_tick_switch s))"
  | (rehash) ts sl where "e = Rehashed" "t = s\<lparr>threads := ts, sleepingThreads := sl\<rparr>"
      "table t = table s" "tids t = tids s" "um_find sl = um_find (sleepingThreads s)"
  using step
proof cases
  case (call al c k)
  have c: "c \<noteq> Terminate 0"
  proof
    assume "c = Terminate 0"
    moreover have "perform al (Terminate 0) s = settle (terminate 0 s)"
      using main_exists [OF sched_invD(1) [OF inv]]
      by (simp add: perform_def uthread_terminate_known inv)
    ultimately show False
      using terminate_main [OF sched_invD(3,6) [OF inv]] call(5) by auto
  qed
  have r: "call_result al c s = Goes k t"
    using call_eval [OF inv call(2,3,4) c] call(5) by simp
  show ?thesis
  proof (cases "departs c s")
    case None
    then show ?thesis using r call c by (intro stay) (auto simp: call_result_def)
  next
    case (Some p)
    obtain site u where "p = (site, u)" by (cases p)
    then show ?thesis
      using Some r call depart_switchable [OF inv call(4,3)]
      by (intro depart) (auto simp: call_result_def)
  qed
next
  case (timer k)
  then show ?thesis
    using tick_eval [OF inv timer(3,2)] by (intro tick) (auto simp: after_tick_def)
next
  case (rehash ts sl)
  note ts = um_find_perm [OF owned_um_ok(1) [OF sched_invD(4) [OF inv]] rehash(3,4)]
  have "tids t = tids s"
    using ts(2) by (auto simp: rehash(2) tids_def um.keys_find)
  moreover have "table t = table s"
    by (rule ext) (simp add: rehash(2) table_def ts(2) split: option.splits)
  moreover have "um_find sl = um_find (sleepingThreads s)"
    by (rule um_find_perm(2) [OF owned_um_ok(3) [OF sched_invD(4) [OF inv]] rehash(5,6)])
  ultimately show ?thesis using rehash that(4) by blast
qed

subsection \<open>The sum of the quanta\<close>

definition quantum_of :: "machine \<Rightarrow> int \<Rightarrow> int" where
  "quantum_of s t = (case table s t of Some th \<Rightarrow> quantumCount th | None \<Rightarrow> 0)"

definition spent :: "machine \<Rightarrow> int" where
  "spent s = sum (quantum_of s) (tids s)"

lemma quantum_of_nonneg: "shape s \<Longrightarrow> 0 \<le> quantum_of s t"
  using shape_quantum [of s t] by (auto simp: quantum_of_def split: option.splits)

lemma quantum_of_free: "owned s \<Longrightarrow> t \<notin> tids s \<Longrightarrow> quantum_of s t = 0"
  by (simp add: quantum_of_def owned_None)

lemma spent_le:
  assumes inv: "sched_inv s" and fin: "finite (tids u)"
    and le: "\<And>t. t \<in> tids u \<Longrightarrow> quantum_of u t \<le> quantum_of s t + (if t = n then d else 0)"
    and d: "0 \<le> d"
  shows "spent u \<le> spent s + d"
proof -
  note own = sched_invD(4) [OF inv] and nn = quantum_of_nonneg [OF sched_invD(1) [OF inv]]
  have fs: "finite (tids s)" by (simp add: tids_def)
  have "spent u \<le> (\<Sum>t \<in> tids u. quantum_of s t + (if t = n then d else 0))"
    unfolding spent_def by (intro sum_mono le)
  also have "\<dots> = (\<Sum>t \<in> tids u. quantum_of s t) + (if n \<in> tids u then d else 0)"
    using fin by (simp add: sum.distrib)
  also have "(\<Sum>t \<in> tids u. quantum_of s t) \<le> (\<Sum>t \<in> tids u \<union> tids s. quantum_of s t)"
    using fin fs nn by (intro sum_mono2) auto
  also have "(\<Sum>t \<in> tids u \<union> tids s. quantum_of s t) = spent s"
    unfolding spent_def using fin fs quantum_of_free [OF own]
    by (intro sum.mono_neutral_right) auto
  finally show ?thesis using d by (auto split: if_splits)
qed

lemma stays_quantum:
  assumes inv: "sched_inv s" and al: "alloc_ok al s"
  shows "quantum_of (snd (stays al c s)) t \<le> quantum_of s t"
proof -
  note own = sched_invD(4) [OF inv] and nn = quantum_of_nonneg [OF sched_invD(1) [OF inv], of t]
  show ?thesis
  proof (cases c)
    case (Spawn entry)
    have "quantum_of (spawned al entry (free_tid s) s) t \<le> quantum_of s t" if "free_tid s \<noteq> -1"
      using table_spawned [OF own al, of "free_tid s" entry] free_tid_spec [of s] that nn
      by (auto simp: quantum_of_def new_thread_def)
    then show ?thesis using Spawn by (simp add: stays_def complain_def quantum_of_def)
  next
    case (Terminate u)
    then show ?thesis
      using removed_table(1) [OF own, of u] nn
      by (auto simp: stays_def complain_def quantum_of_def)
  next
    case (Block u)
    then show ?thesis
      using own
      by (auto simp: stays_def complain_def quantum_of_def blocked_state_def split: option.splits)
  next
    case (Resume u)
    then show ?thesis
      using own
      by (auto simp: stays_def complain_def quantum_of_def resumed_state_def split: option.splits)
  qed (simp_all add: stays_def complain_def quantum_of_def split: option.splits)
qed

lemma switch_quantum:
  assumes "owned u"
  shows "quantum_of (switch_to site u) t \<le>
    quantum_of u t + (if t = next_tid u then 1 else 0) \<or> quantum_of (switch_to site u) t = 0"
  by (auto simp: quantum_of_def table_switch_to [OF assms] switch_thread_def Let_def inc_def
      split: option.splits)

lemma switch_spent:
  assumes inv: "sched_inv s" and sw: "switchable site u"
    and eq: "\<And>t. quantum_of u t = quantum_of s t"
  shows "spent (switch_to site u) \<le> spent s + 1"
proof (rule spent_le [OF inv])
  show "finite (tids (switch_to site u))" by (simp add: tids_def)
  fix t
  show "quantum_of (switch_to site u) t \<le> quantum_of s t + (if t = next_tid u then 1 else 0)"
    using switch_quantum [OF switchableD(3) [OF sw], of site t]
      quantum_of_nonneg [OF sched_invD(1) [OF inv], of t] eq by auto
qed simp

lemma depart_quantum:
  assumes "owned s" "departs c s = Some (site, u)"
  shows "quantum_of u t = quantum_of s t"
proof -
  obtain f where "table u = (table s)(currentTid s := map_option f (table s (currentTid s)))"
    "\<forall>th. quantumCount (f th) = quantumCount th"
    using depart_table [OF assms] by blast
  then show ?thesis
    by (cases "t = currentTid s") (auto simp: quantum_of_def split: option.splits)
qed

lemma before_tick_quantum:
  "owned s \<Longrightarrow> quantum_of (before_tick_switch s) t = quantum_of s t"
  by (auto simp: quantum_of_def before_tick_table split: option.splits)

definition accounts :: "machine \<Rightarrow> bool" where
  "accounts s \<longleftrightarrow> sched_inv s \<and> spent s \<le> totalQuantums s"

lemma stays_total: "totalQuantums (snd (stays al c s)) = totalQuantums s"
  by (cases c) (auto simp: stays_def complain_def blocked_state_def resumed_state_def
      split: option.splits)

lemma accounts_step:
  assumes a: "accounts s" and step: "lib_step s e t"
  shows "accounts t"
proof -
  have inv: "sched_inv s" and le: "spent s \<le> totalQuantums s" using a by (simp_all add: accounts_def)
  note own = sched_invD(4) [OF inv]
  have "sched_inv t" by (rule lib_step_inv [OF inv step])
  moreover have "spent t \<le> totalQuantums t"
    using step inv
  proof (cases rule: step_cases)
    case (stay al c)
    have "spent (snd (stays al c s)) \<le> spent s + 0"
      using stays_quantum [OF inv stay(1), of c] by (intro spent_le [OF inv]) (auto simp: tids_def)
    then show ?thesis using le stays_total [of al c s] stay(6) by simp
  next
    case (depart c site u k)
    show ?thesis
      using switch_spent [OF inv depart(3) depart_quantum [OF own depart(2)]] le depart
        depart_frame(3) [OF depart(2)] by simp
  next
    case (tick k)
    show ?thesis
      using switch_spent [OF inv tick_ready(1) [OF inv tick(1,2)] before_tick_quantum [OF own]]
        le tick by (simp add: after_tick_def)
  next
    case (rehash ts sl)
    then have "spent t = spent s" by (simp add: spent_def quantum_of_def)
    then show ?thesis using le rehash(2) by simp
  qed
  ultimately show ?thesis by (simp add: accounts_def)
qed

lemma accounts_start: "lib_start s \<Longrightarrow> accounts s"
proof -
  assume s: "lib_start s"
  then have inv: "sched_inv s" by (rule lib_start_inv)
  obtain obj q g m where b: "s = booted obj q g m" using s by (auto simp: lib_start_def init_eval)
  have "tids s = {0}" by (simp add: b tids_def booted_def um_keys_def)
  moreover have "quantum_of s 0 = 1" by (simp add: b quantum_of_def booted_table main_thread_def)
  moreover have "totalQuantums s = 1" by (simp add: b booted_def)
  ultimately show "accounts s" using inv by (simp add: accounts_def spent_def)
qed

interpretation accounting: safe_system lib_start lib_step accounts
  by unfold_locales (auto intro: accounts_start accounts_step)

text \<open>C22: the quantum counts of the existing threads never sum to more than the total number of
  quanta, in any reachable state: no quantum is counted for two threads.\<close>

theorem quanta_never_exceed_total:
  assumes "reachable s"
  shows "(\<Sum>t \<in> tids s. quantum_of s t) \<le> totalQuantums s"
  using accounting.reach_inv [OF assms] by (simp add: accounts_def spent_def)

theorem quanta_never_exceed_total_witness:
  "(\<Sum>t \<in> tids (after [Call (Spawn 77), Call (Spawn 88), Tick]).
     quantum_of (after [Call (Spawn 77), Call (Spawn 88), Tick]) t) \<le> 2"
  using quanta_never_exceed_total [OF sample_running] by (simp add: run_simps)

subsection \<open>Threads held back by the user\<close>

definition held :: "int \<Rightarrow> machine \<Rightarrow> bool" where
  "held t s \<longleftrightarrow> sched_inv s
     \<and> (\<exists>th. table s t = Some th \<and> state th = BLOCKED \<and> didUserBlock th \<and> \<not> terminated th)"

text \<open>The steps that are not about thread \<open>t\<close>.\<close>

definition spares :: "int \<Rightarrow> event \<Rightarrow> bool" where
  "spares t e = (case e of Called c _ \<Rightarrow> c \<noteq> Resume t \<and> c \<noteq> Terminate t | _ \<Rightarrow> True)"

definition sparing_step :: "int \<Rightarrow> machine \<Rightarrow> event \<Rightarrow> machine \<Rightarrow> bool" where
  "sparing_step t s e u \<longleftrightarrow> lib_step s e u \<and> spares t e"

lemma held_stays:
  assumes h: "held t s" and al: "alloc_ok al s" and c: "c \<noteq> Resume t" "c \<noteq> Terminate t"
  shows "table (snd (stays al c s)) t = table s t"
proof -
  have inv: "sched_inv s" using h by (simp add: held_def)
  note own = sched_invD(4) [OF inv]
  obtain th where th: "table s t = Some th" "didUserBlock th" using h by (auto simp: held_def)
  have t: "t \<in> tids s" using th(1) by (rule table_tids)
  show ?thesis
  proof (cases c)
    case (Spawn entry)
    have "table (spawned al entry (free_tid s) s) t = table s t" if "free_tid s \<noteq> -1"
      using table_spawned [OF own al, of "free_tid s" entry] free_tid_spec [of s] that t by auto
    then show ?thesis using Spawn by (simp add: stays_def complain_def)
  next
    case (Terminate u)
    then show ?thesis using removed_table(1) [OF own, of u] c by (auto simp: stays_def complain_def)
  next
    case (Block u)
    have "flagged s t" using th by (simp add: flagged_def)
    then show ?thesis using Block own by (auto simp: stays_def complain_def blocked_state_def)
  next
    case (Resume u)
    then show ?thesis using own c by (auto simp: stays_def complain_def resumed_state_def)
  qed (simp_all add: stays_def complain_def split: option.splits)
qed

lemma held_switch:
  assumes sw: "switchable site u" and th: "table u t = Some th" "state th = BLOCKED"
    "\<not> terminated th" "t \<noteq> currentTid u" "t \<notin> set (readyQueue u)"
  shows "table (switch_to site u) t = Some th"
proof -
  have "t \<noteq> next_tid u" using next_tid_cases [of u] th by auto
  moreover have "t \<noteq> pendingDeletionTid u \<or> \<not> reaps site u"
    using sw th by (auto simp: switchable_def pend_ok_def reaps_def split: if_splits)
  ultimately show ?thesis
    using th by (auto simp: table_switch_to [OF switchableD(3) [OF sw]] switch_thread_def)
qed

lemma held_table:
  assumes h: "held t s" and step: "sparing_step t s e u"
  shows "table u t = table s t"
proof -
  have inv: "sched_inv s" using h by (simp add: held_def)
  note own = sched_invD(4) [OF inv]
  have st: "lib_step s e u" and sp: "spares t e" using step by (simp_all add: sparing_step_def)
  obtain th where th: "table s t = Some th" "state th = BLOCKED" "didUserBlock th" "\<not> terminated th"
    using h by (auto simp: held_def)
  have cur: "t \<noteq> currentTid s" using current_running [OF inv] th by auto
  have q: "t \<notin> set (readyQueue s)"
    using shape_waiting [OF sched_invD(1) [OF inv] th(1) cur] th(2) by (simp add: waiting_ok_def)
  show ?thesis
    using st inv
  proof (cases rule: step_cases)
    case (stay al c)
    then show ?thesis using held_stays [OF h stay(1)] sp by (simp add: spares_def)
  next
    case (depart c site v k)
    have "table v t = Some th" using depart_table [OF own depart(2)] th(1) cur by auto
    then show ?thesis
      using held_switch [OF depart(3), of t th] depart depart_frame [OF depart(2)] th cur q by simp
  next
    case (tick k)
    have nw: "t \<notin> set (wakes s (sleepingThreads s))"
      using th by (auto simp: wakes_def flagged_def)
    then have "table (before_tick_switch s) t = Some th"
      using th(1) by (simp add: before_tick_table [OF own])
    moreover have "t \<notin> set (readyQueue (before_tick_switch s))"
      using q nw woken_queue [OF own] by (simp add: before_tick_switch_def)
    ultimately show ?thesis
      using held_switch [OF tick_ready(1) [OF inv tick(1,2)]] th cur tick
      by (simp add: after_tick_def)
  qed simp
qed

lemma held_step: "held t s \<Longrightarrow> sparing_step t s e u \<Longrightarrow> held t u"
  using held_table [of t s e u] lib_step_inv [of s e u] by (simp add: held_def sparing_step_def)

interpretation holding: safe_system "held t" "sparing_step t" "held t" for t
  by unfold_locales (auto intro: held_step)

text \<open>C13: a thread that the user blocked, and that has not terminated itself, does not run and
  stays BLOCKED through every sequence of calls and ticks, whoever makes them, until somebody
  resumes or terminates it.\<close>

theorem blocked_until_resumed:
  assumes "reachable s" "table s t = Some th" "state th = BLOCKED" "didUserBlock th"
    "\<not> terminated th" "reach (\<lambda>x. x = s) (sparing_step t) u"
  shows "currentTid u \<noteq> t \<and> t \<notin> set (readyQueue u)
    \<and> (\<exists>uh. table u t = Some uh \<and> state uh = BLOCKED \<and> didUserBlock uh)"
proof -
  have "held t s" using reachable_inv [OF assms(1)] assms(2-5) by (simp add: held_def)
  then have "held t u"
    using holding.reach_inv reach_mono [OF assms(6), of "held t"] by blast
  then obtain uh where uh: "sched_inv u" "table u t = Some uh" "state uh = BLOCKED" "didUserBlock uh"
    by (auto simp: held_def)
  then have "currentTid u \<noteq> t" using current_running [OF uh(1)] by auto
  then show ?thesis
    using shape_waiting [OF sched_invD(1) [OF uh(1)] uh(2)] uh by (auto simp: waiting_ok_def)
qed

theorem blocked_until_resumed_witness:
  "\<exists>k u. tick (after [Call (Spawn 77), Call (Spawn 88), Call (Block 1)]) = Goes k u
     \<and> currentTid u \<noteq> 1 \<and> 1 \<notin> set (readyQueue u)"
proof -
  let ?s = "after [Call (Spawn 77), Call (Spawn 88), Call (Block 1)]"
  have en: "tick_enabled ?s" "totalQuantums ?s < INT_MAX" by (simp_all add: run_simps state_simps)
  obtain th where th: "table ?s 1 = Some th" "state th = BLOCKED" "didUserBlock th" "\<not> terminated th"
    by (simp add: run_simps state_simps)
  obtain k u where u: "tick ?s = Goes k u" by (simp add: run_simps state_simps)
  then have "sparing_step 1 ?s (Ticked k) u"
    using en by (simp add: sparing_step_def spares_def lib_step.timer)
  moreover have "reach (\<lambda>x. x = ?s) (sparing_step 1) ?s" by (rule reach_start) simp
  ultimately have "reach (\<lambda>x. x = ?s) (sparing_step 1) u" by (rule reach_step [rotated])
  from blocked_until_resumed [OF sample_blocked th this] u show ?thesis by blast
qed

subsection \<open>Only ticks wake\<close>

text \<open>
  A call never takes a deadline out of the sleeping table, whatever number of quanta it starts; the
  thread named by \<open>terminate\<close> and the one that sleeps again apart.  So a deadline that comes with a
  quantum another thread starts by giving up the processor is not served before the next tick,
  although \<open>uthreads.h\<close> counts the quanta of \<open>uthread_sleep\<close> regardless of their reason.
\<close>

lemma depart_sleeping:
  assumes "departs c s = Some (site, u)" "\<forall>n. c = Sleep n \<longrightarrow> t \<noteq> currentTid s"
  shows "um_find (sleepingThreads u) t = um_find (sleepingThreads s) t"
  using assms
  by (auto simp: departs_def self_blocked_def self_terminated_def put_to_sleep_def
      split: api_call.splits if_splits)

lemma stays_sleeping:
  "c \<noteq> Terminate t \<Longrightarrow>
     um_find (sleepingThreads (snd (stays al c s))) t = um_find (sleepingThreads s) t"
  by (cases c) (auto simp: stays_def complain_def spawned_def blocked_state_def resumed_state_def
      removed_state_def split: option.splits)

lemma calls_wake_nobody:
  assumes "reachable s" "lib_step s (Called c k) u" "um_find (sleepingThreads s) t = Some d"
    and "c \<noteq> Terminate t" "\<forall>n. c = Sleep n \<longrightarrow> t \<noteq> currentTid s"
  shows "um_find (sleepingThreads u) t = Some d"
  using assms(2) reachable_inv [OF assms(1)]
proof (cases rule: step_cases)
  case (stay al c')
  then show ?thesis using stays_sleeping [of c t al s] assms(3,4) by simp
next
  case (depart c' site v k')
  then show ?thesis using depart_sleeping [of c s site v t] assms(3,5) by simp
qed simp_all

text \<open>Thread 1 sleeps for one quantum; thread 2 gives up the processor; quantum 4 begins and thread 1,
  due since quantum 3, is still in the sleeping table.\<close>

lemma deadline_passes_unserved:
  "reachable (after [Call (Spawn 77), Call (Spawn 88), Tick, Call (Sleep 1), Call (Block 2)])"
  "um_find (sleepingThreads (after [Call (Spawn 77), Call (Spawn 88), Tick, Call (Sleep 1), Call (Block 2)])) 1
     = Some 3"
  "totalQuantums (after [Call (Spawn 77), Call (Spawn 88), Tick, Call (Sleep 1), Call (Block 2)]) = 4"
  by (rule after_reachable) (simp_all add: run_simps state_simps)

end
