(* ===== verification/Behaviour.thy ===== *)
theory Behaviour
  imports Accounting
begin

section \<open>What each function of the interface does\<close>

text \<open>
  The functional behaviour of the library's functions on every branch, from any reachable state.
\<close>

subsection \<open>Spawning\<close>

text \<open>C15: \<open>uthread_spawn\<close>.  With all \<open>MAX_THREAD_NUM\<close> IDs in use it fails with a message and
  changes nothing else.  Otherwise it creates exactly one thread, READY, with its own stack, no
  quanta and the smallest unused ID, and appends it to the end of the ready queue; every other
  thread and the running thread stay as they are.\<close>

theorem spawn_smallest_free_tid:
  assumes "reachable s" "alloc_ok al s" "entry \<noteq> 0"
  shows "if {0..<MAX_THREAD_NUM} \<subseteq> tids s
    then uthread_spawn al entry s = Done (-1)
      (s\<lparr>cerr := cerr s @ [''thread library error: reached maximum thread limit'']\<rparr>)
    else \<exists>t u th. uthread_spawn al entry s = Done t u \<and> 0 < t \<and> t < MAX_THREAD_NUM \<and> t \<notin> tids s
      \<and> (\<forall>k. 0 \<le> k \<and> k < t \<longrightarrow> k \<in> tids s) \<and> tids u = insert t (tids s)
      \<and> table u t = Some th \<and> (\<forall>k. k \<noteq> t \<longrightarrow> table u k = table s k) \<and> state th = READY \<and> quantumCount th = 0
      \<and> stack th = stack_addr al \<and> \<not> didUserBlock th
      \<and> readyQueue u = readyQueue s @ [t] \<and> currentTid u = currentTid s \<and> sched_inv u"
proof -
  note inv = reachable_inv [OF assms(1)]
  note d = sched_invD [OF inv] and zero = main_exists [OF sched_invD(1) [OF inv]]
  show ?thesis
  proof (cases "free_tid s = -1")
    case True
    then have "{0..<MAX_THREAD_NUM} \<subseteq> tids s" using free_tid_spec [of s] by auto
    then show ?thesis
      using assms(3) spawn_full [OF True] by (simp add: uthread_spawn_def)
  next
    case False
    then have f: "0 \<le> free_tid s" "free_tid s < MAX_THREAD_NUM" "free_tid s \<notin> tids s"
      "\<forall>t. 0 \<le> t \<and> t < free_tid s \<longrightarrow> t \<in> tids s"
      using free_tid_spec [of s] by auto
    have "free_tid s \<noteq> 0" using f(3) zero by auto
    then have "\<not> {0..<MAX_THREAD_NUM} \<subseteq> tids s" "0 < free_tid s" using f by auto
    moreover have "uthread_spawn al entry s = Done (free_tid s) (spawned al entry (free_tid s) s)"
      using spawn_eval [OF d(6) assms(2) False zero] assms(3) by (simp add: uthread_spawn_def)
    moreover have "table (spawned al entry (free_tid s) s)
        = (table s)(free_tid s \<mapsto> new_thread al entry (free_tid s) s)"
      by (rule table_spawned [OF d(4) assms(2) f(3)])
    moreover have "sched_inv (spawned al entry (free_tid s) s)"
      by (rule spawned_inv [OF inv assms(2) f(3,1,2)])
    ultimately show ?thesis
      using f by (simp add: new_thread_def)
  qed
qed

theorem spawn_smallest_free_tid_witness:
  "\<exists>u. uthread_spawn (memory 7) 99 (after [Call (Spawn 77), Call (Spawn 88)]) = Done 3 u
     \<and> readyQueue u = [1, 2, 3]"
proof -
  let ?s = "after [Call (Spawn 77), Call (Spawn 88)]"
  have al: "alloc_ok (memory 7) ?s" by (simp add: run_simps state_simps)
  have tids: "3 \<notin> tids ?s" "readyQueue ?s = [1, 2]" "tids ?s = {0, 1, 2}"
    by (auto simp: run_simps state_simps)
  moreover have "3 \<in> {0..<MAX_THREAD_NUM}" by (simp add: MAX_THREAD_NUM_def)
  ultimately have ns: "\<not> {0..<MAX_THREAD_NUM} \<subseteq> tids ?s" by blast
  obtain t u where r: "uthread_spawn (memory 7) 99 ?s = Done t u" "t \<notin> tids ?s"
    "0 < t" "\<forall>k. 0 \<le> k \<and> k < t \<longrightarrow> k \<in> tids ?s" "readyQueue u = readyQueue ?s @ [t]"
    using spawn_smallest_free_tid [OF sample_spawned al, of 99] unfolding if_not_P [OF ns] by auto
  have "\<not> 3 < t" using r(4) tids(1) by auto
  with r(2,3) tids(3) have "t = 3" by auto
  then show ?thesis using r tids(2) by auto
qed

text \<open>C16: the context \<open>Thread::Thread\<close> prepares for a spawned thread is the one \<open>siglongjmp\<close> can
  use: demangling its program counter gives the entry point, demangling its stack pointer gives
  the last address slot of the thread's own stack, and the timer signal is unblocked in it.\<close>

theorem first_context:
  assumes "reachable s" "alloc_ok al s" "entry \<noteq> 0" "uthread_spawn al entry s = Done t u" "t \<noteq> -1"
    and "unat (stack_addr al) + STACK_SIZE \<le> 2 ^ 64"
  shows "\<exists>th sp pc m. table u t = Some th \<and> env th = Env_entry sp pc m \<and> SIGVTALRM \<notin> m
    \<and> restore_address (guard u) pc = entry
    \<and> unat (restore_address (guard u) sp) = unat (stack th) + STACK_SIZE - sizeof_address_t"
proof -
  note inv = reachable_inv [OF assms(1)]
  note d = sched_invD [OF inv] and zero = main_exists [OF sched_invD(1) [OF inv]]
  have "free_tid s \<noteq> -1"
    using assms(3-5) spawn_full [of s al entry] by (auto simp: uthread_spawn_def)
  with spawn_eval [OF d(6) assms(2) this zero] assms(3,4)
  have u: "t = free_tid s" "u = spawned al entry t s" "t \<notin> tids s"
    using free_tid_spec [of s] by (auto simp: uthread_spawn_def)
  then have "table u t = Some (new_thread al entry t s)"
    using table_spawned [OF d(4) assms(2) u(3)] by simp
  moreover have "guard u = guard s" by (simp add: u(2))
  ultimately show ?thesis
    using unat_initial_sp [OF assms(6)]
    by (simp add: new_thread_def x86_64.demangle_mangle STACK_SIZE_def sizeof_address_t_def)
qed

theorem first_context_witness:
  "\<exists>t u th sp pc. uthread_spawn (memory 7) 99 (after [Call (Spawn 77), Call (Spawn 88)]) = Done t u
     \<and> table u t = Some th \<and> env th = Env_entry sp pc {} \<and> restore_address (guard u) pc = 99"
proof -
  let ?s = "after [Call (Spawn 77), Call (Spawn 88)]"
  have al: "alloc_ok (memory 7) ?s" "unat (stack_addr (memory 7)) + STACK_SIZE \<le> 2 ^ 64"
    by (simp_all add: run_simps state_simps STACK_SIZE_def)
  obtain t u where u: "uthread_spawn (memory 7) 99 ?s = Done t u" "t \<noteq> -1"
    "\<forall>th sp pc m. table u t = Some th \<longrightarrow> env th = Env_entry sp pc m \<longrightarrow> m = {}"
    by (simp add: run_simps state_simps)
  from first_context [OF sample_spawned al(1) _ u(1,2) al(2)] u show ?thesis by fastforce
qed

text \<open>The first time a thread gets the processor it starts at its entry point: when a thread that
  has not run yet is at the front of the ready queue, the next tick makes it the running thread
  and jumps to its prepared context.\<close>

lemma first_run_starts_at_entry:
  assumes "reachable s" "tick_enabled s" "totalQuantums s < INT_MAX"
    and "readyQueue s = t # q" "t \<noteq> currentTid s" "table s t = Some th" "env th = Env_entry sp pc m"
  shows "\<exists>u uh. tick s = Goes (Starts sp pc) u \<and> currentTid u = t \<and> sigmask u = m
    \<and> table u t = Some uh \<and> state uh = RUNNING \<and> quantumCount uh = quantumCount th + 1"
proof -
  note inv = reachable_inv [OF assms(1)]
  note own = sched_invD(4) [OF inv]
  let ?b = "before_tick_switch s" and ?site = "From_timer (sigmask s)"
  note tr = tick_ready [OF inv assms(2,3)]
  have ob: "owned ?b" by (rule switchableD(3) [OF tr(1)])
  obtain b where b: "table ?b t = Some b" "env b = env th" "quantumCount b = quantumCount th"
    using before_tick_thread [OF own assms(6)] by blast
  have n: "next_tid ?b = t" "next_queue ?b \<noteq> []"
    using tr(3) assms(4) by (simp_all add: next_tid_def tick_queue_def)
  have c: "next_context ?site ?b = Env_entry sp pc m"
    using b n assms(5,7) by (simp add: next_context_def table_switched [OF ob] switch_thread_def
        Let_def inc_def setState_def)
  have "table (after_tick s) t = Some (switch_thread ?site ?b t b)"
    using b c by (simp add: after_tick_def table_switch_to [OF ob] reaps_def)
  moreover have "state (switch_thread ?site ?b t b) = RUNNING
      \<and> quantumCount (switch_thread ?site ?b t b) = quantumCount th + 1"
    using b n assms(5) by (simp add: switch_thread_def Let_def inc_def setState_def)
  moreover have "tick s = Goes (Starts sp pc) (after_tick s)"
    using tick_eval [OF inv assms(3,2)] c by (simp add: after_tick_def continues_def)
  moreover have "currentTid (after_tick s) = t" "sigmask (after_tick s) = m"
    using n c by (simp_all add: after_tick_def switch_to_def)
  ultimately show ?thesis by auto
qed

subsection \<open>Blocking and resuming\<close>



text \<open>C19: \<open>uthread_resume\<close> of a BLOCKED thread makes it READY at the end of the ready queue, unless
  it is still sleeping: then it only loses the mark of the user's block and stays BLOCKED until
  its deadline.  Resuming a thread that is READY or RUNNING changes nothing.\<close>

theorem resume_thread:
  assumes "reachable s" "table s t = Some th"
  shows "if state th \<noteq> BLOCKED then uthread_resume t s = Done 0 s
    else \<exists>u. uthread_resume t s = Done 0 u \<and> currentTid u = currentTid s
      \<and> sleepingThreads u = sleepingThreads s \<and> totalQuantums u = totalQuantums s
      \<and> (if t \<in> sleepers s
         then table u = (table s)(t \<mapsto> th\<lparr>didUserBlock := False\<rparr>) \<and> readyQueue u = readyQueue s
         else table u = (table s)(t \<mapsto> th\<lparr>state := READY\<rparr>)
           \<and> readyQueue u = readyQueue s @ [t])"
proof -
  note inv = reachable_inv [OF assms(1)] and t = table_tids [OF assms(2)]
  note own = sched_invD(4) [OF inv]
  have eq: "uthread_resume t s = resume t s" "0 \<le> t"
    using tid_range [OF inv t] by (simp_all add: uthread_resume_known inv t)
  show ?thesis
    using eq own assms(2) resume_unblocked [OF assms(2) eq(2)]
      resume_blocked [OF sched_invD(6) [OF inv] assms(2) eq(2)]
    by (simp add: resumed_state_def)
qed

theorem resume_thread_witness:
  "\<exists>u th. uthread_resume 1 (after [Call (Spawn 77), Call (Spawn 88), Call (Block 1)]) = Done 0 u
     \<and> readyQueue u = [2, 1] \<and> table u 1 = Some th \<and> state th = READY"
proof -
  let ?s = "after [Call (Spawn 77), Call (Spawn 88), Call (Block 1)]"
  obtain th where th: "table ?s 1 = Some th" "state th = BLOCKED" "1 \<notin> sleepers ?s"
    "readyQueue ?s = [2]"
    by (simp add: run_simps state_simps)
  from resume_thread [OF sample_blocked th(1)] th show ?thesis by auto
qed

subsection \<open>Terminating\<close>





end
