(* ===== verification/Robustness.thy ===== *)
theory Robustness
  imports Behaviour
begin

section \<open>Errors, failing system calls, and preemption\<close>

text \<open>
  Refused arguments, branches that cannot be reached, what a failing system call does, and the
  state of the timer: it is armed with the configured quantum and stays deliverable.
\<close>

subsection \<open>Arguments\<close>

text \<open>C25: a thread ID that denotes no thread, in range or not, is refused by \<open>uthread_terminate\<close>,
  \<open>uthread_block\<close> and \<open>uthread_resume\<close> with the value -1 and one line on standard error, and so is
  blocking the main thread and putting it to sleep; nothing else changes.\<close>

theorem bad_thread_refused:
  assumes "reachable s"
  shows "(\<forall>t. t \<notin> tids s \<longrightarrow>
        uthread_terminate t s = Done (-1) (s\<lparr>cerr := cerr s @ [tid_error t]\<rparr>)
      \<and> uthread_block t s = Done (-1) (s\<lparr>cerr := cerr s @ [tid_error t]\<rparr>)
      \<and> uthread_resume t s = Done (-1) (s\<lparr>cerr := cerr s @ [tid_error t]\<rparr>))
    \<and> (\<exists>msg. uthread_block 0 s = Done (-1) (s\<lparr>cerr := cerr s @ [msg]\<rparr>))
    \<and> (\<forall>n. n \<le> 0 \<or> currentTid s = 0 \<longrightarrow>
        (\<exists>msg. uthread_sleep n s = Done (-1) (s\<lparr>cerr := cerr s @ [msg]\<rparr>)))"
proof -
  note inv = reachable_inv [OF assms]
  note own = sched_invD(4) [OF inv] and zero = main_exists [OF sched_invD(1) [OF inv]]
  have "uthread_terminate t s = Done (-1) (s\<lparr>cerr := cerr s @ [tid_error t]\<rparr>)
      \<and> uthread_block t s = Done (-1) (s\<lparr>cerr := cerr s @ [tid_error t]\<rparr>)
      \<and> uthread_resume t s = Done (-1) (s\<lparr>cerr := cerr s @ [tid_error t]\<rparr>)" if t: "t \<notin> tids s" for t
  proof -
    have "t \<noteq> 0" using t zero by auto
    then show ?thesis
      using uthread_terminate_unknown [OF own t] uthread_block_unknown [OF own t]
        uthread_resume_unknown [OF own t] by simp
  qed
  moreover have "\<exists>msg. uthread_block 0 s = Done (-1) (s\<lparr>cerr := cerr s @ [msg]\<rparr>)"
    by (auto simp: uthread_block_def act_simps MAX_THREAD_NUM_def)
  moreover have "\<exists>msg. uthread_sleep n s = Done (-1) (s\<lparr>cerr := cerr s @ [msg]\<rparr>)"
    if "n \<le> 0 \<or> currentTid s = 0" for n
    using that by (auto simp: uthread_sleep_def getTid_def act_simps)
  ultimately show ?thesis by blast
qed

theorem bad_thread_refused_witness:
  "uthread_terminate 42 (after [Call (Spawn 77), Call (Spawn 88)])
     = Done (-1) ((after [Call (Spawn 77), Call (Spawn 88)])\<lparr>cerr :=
         [''thread library error: there is no thread with id: 42'']\<rparr>)"
proof -
  let ?s = "after [Call (Spawn 77), Call (Spawn 88)]"
  have "42 \<notin> tids ?s" "cerr ?s = []"
    by (simp_all add: run_simps state_simps)
  moreover have "tid_error 42 = ''thread library error: there is no thread with id: 42''"
    by code_simp
  moreover note bad_thread_refused [OF sample_spawned]
  ultimately show ?thesis by simp
qed

text \<open>C24: a thread other than the main one can always give up the processor.  The failures
  ``no threads left to run'' of \<open>terminate\<close>, \<open>block\<close> and \<open>sleep\<close> are unreachable: nothing is
  printed and the call hands over to another context.\<close>

theorem handing_over_never_fails:
  assumes "reachable s" "alloc_ok al s" "allowed s c" "totalQuantums s < INT_MAX" "currentTid s \<noteq> 0"
    and "c = Terminate (currentTid s) \<or> c = Sleep n \<and> 0 < n
      \<or> c = Block (currentTid s) \<and> table s (currentTid s) = Some th \<and> \<not> didUserBlock th"
  shows "\<exists>k u. perform al c s = Goes k u \<and> cerr u = cerr s \<and> totalQuantums u = totalQuantums s + 1
    \<and> (\<forall>v. k \<noteq> Returns v)"
proof -
  note inv = reachable_inv [OF assms(1)]
  have c: "c \<noteq> Terminate 0" using assms(5,6) by auto
  obtain site u where dep: "departs c s = Some (site, u)"
    using assms(5,6) by (auto simp: departs_def flagged_def)
  have sw: "switchable site u" by (rule depart_switchable [OF inv assms(4,3) dep])
  have "perform al c s = Goes (continues (next_context site u)) (switch_to site u)"
    using call_eval [OF inv assms(2,3,4) c] dep by (simp add: call_result_def)
  moreover have "continues (next_context site u) \<noteq> Returns v" for v
    using next_context_ok(1) [OF sw] by (cases "next_context site u") (simp_all add: continues_def)
  ultimately show ?thesis using depart_frame [OF dep] by simp
qed

theorem handing_over_never_fails_witness:
  "\<exists>k u. perform (memory 9) (Sleep 4) (after [Call (Spawn 77), Call (Spawn 88), Tick]) = Goes k u
     \<and> cerr u = []"
proof -
  let ?s = "after [Call (Spawn 77), Call (Spawn 88), Tick]"
  have "alloc_ok (memory 9) ?s" "allowed ?s (Sleep 4)" "totalQuantums ?s < INT_MAX"
    "currentTid ?s \<noteq> 0" "cerr ?s = []"
    by (simp_all add: run_simps state_simps)
  with handing_over_never_fails [OF sample_running, of "memory 9" "Sleep 4" 4] show ?thesis by auto
qed

subsection \<open>System calls\<close>

text \<open>C26: initialisation on every branch.  A quantum that is not positive is refused; without
  memory \<open>operator new\<close> throws; a failing \<open>sigaction\<close> or \<open>setitimer\<close> ends the process with
  status 1 and its message; else the main thread is thread 0, RUNNING, in its first quantum.\<close>

theorem init_on_every_branch:
  "uthread_init al q (boot g m fl) =
    (if q \<le> 0 then Done (-1) ((boot g m fl)
       \<lparr>cerr := [''thread library error: quantum_usecs must be positive'']\<rparr>)
     else if obj_addr al = 0 then Stop Bad_alloc ((boot g m fl)\<lparr>quantumUsecs := q\<rparr>)
     else if Sigaction \<in> set fl then Stop (Exit 1) ((booted (obj_addr al) q g m)
       \<lparr>handler_installed := False, itimer := None, failing := fl,
        cerr := [''system error: failed to set signal handler'']\<rparr>)
     else if Setitimer \<in> set fl then Stop (Exit 1) ((booted (obj_addr al) q g m)
       \<lparr>itimer := None, failing := fl, cerr := [''system error: failed to set timer'']\<rparr>)
     else Done 0 ((booted (obj_addr al) q g m)\<lparr>failing := fl\<rparr>))"
  by (simp add: uthread_init_def sched_init_def boot_def act_simps new_Thread_def construct_main
      um_put_def um_find_def call_method_def setupSignalHandler_def booted_def main_thread_def
      int_ok_def INT_MAX_def INT_MIN_def setupTimer_def check_call_def quantum_timer_valid Let_def)



subsection \<open>The timer\<close>

text \<open>C28: the timer value computed from a positive quantum is one the kernel accepts, is not zero
  (a zero would disarm the timer), stands for exactly the quantum, and repeats with the same
  period; so \<open>setupTimer\<close> succeeds unless the system call itself fails.\<close>

theorem quantum_timer_exact:
  assumes "0 < q"
  shows "itimer_valid (quantum_timer q) \<and> microseconds (it_value (quantum_timer q)) = q
    \<and> it_interval (quantum_timer q) = it_value (quantum_timer q)
    \<and> (\<forall>s. quantumUsecs s = q \<longrightarrow> failing s = [] \<longrightarrow>
         setupTimer s = Done () (s\<lparr>itimer := Some (quantum_timer q)\<rparr>))"
proof -
  have "microseconds (it_value (quantum_timer q)) = q"
    using assms by (simp add: quantum_timer_def microseconds_def Let_def signed_divide_int_def
        signed_modulo_int_def sgn_if)
  then show ?thesis
    using assms quantum_timer_valid [of q] by (auto simp: setupTimer_ok quantum_timer_def Let_def)
qed

theorem quantum_timer_exact_witness:
  "it_value (quantum_timer 2500000) = \<lparr>tv_sec = 2, tv_usec = 500000\<rparr>
     \<and> microseconds (it_value (quantum_timer 2500000)) = 2500000"
  using quantum_timer_exact [of 2500000]
  by (simp add: quantum_timer_def Let_def signed_divide_int_def signed_modulo_int_def sgn_if)

text \<open>C23: preemption survives every call.  When the timer signal can be delivered before a call,
  it can be delivered to whichever thread goes on after it, with one exception:
  \<open>uthread_get_quantums\<close> of an ID that denotes no thread returns with the signal still
  blocked.\<close>

theorem preemption_survives:
  assumes "reachable s" "alloc_ok al s" "allowed s c" "totalQuantums s < INT_MAX" "tick_enabled s"
    and "perform al c s = Goes k u"
  shows "tick_enabled u \<longleftrightarrow> (\<forall>t. c = Get_quantums t \<longrightarrow> t \<in> tids s)"
proof -
  note inv = reachable_inv [OF assms(1)]
  note d = sched_invD [OF inv]
  have "c \<noteq> Terminate 0"
  proof
    assume "c = Terminate 0"
    moreover have "perform al (Terminate 0) s = settle (terminate 0 s)"
      using main_exists [OF d(1)] by (simp add: perform_def uthread_terminate_known inv)
    ultimately show False using terminate_main [OF d(3,6)] assms(6) by auto
  qed
  then have r: "call_result al c s = Goes k u"
    using call_eval [OF inv assms(2,3,4)] assms(6) by simp
  show ?thesis
  proof (cases "departs c s")
    case (Some p)
    obtain site v where p: "p = (site, v)" by (cases p)
    then have "u = switch_to site v" "tick_enabled (switch_to site v)"
      using r Some switch_to_tick_enabled [OF depart_switchable [OF inv assms(4,3)]]
      by (simp_all add: call_result_def)
    moreover have "c \<noteq> Get_quantums t" for t using Some by auto
    ultimately show ?thesis by simp
  next
    case None
    then have "u = snd (stays al c s)" using r by (simp add: call_result_def)
    then show ?thesis
      using assms(5) owned_table [OF d(4)] owned_None [OF d(4)]
      by (cases c) (auto simp: stays_def complain_def tick_enabled_def blocked_state_def
          resumed_state_def split: option.splits)
  qed
qed

theorem preemption_survives_witness:
  "\<exists>k u. perform (memory 9) (Get_quantums 7) (after [Call (Spawn 77), Call (Spawn 88)]) = Goes k u
     \<and> \<not> tick_enabled u"
proof -
  let ?s = "after [Call (Spawn 77), Call (Spawn 88)]"
  have s: "alloc_ok (memory 9) ?s" "allowed ?s (Get_quantums 7)" "totalQuantums ?s < INT_MAX"
    "tick_enabled ?s" "7 \<notin> tids ?s"
    by (simp_all add: run_simps state_simps)
  obtain k u where "perform (memory 9) (Get_quantums 7) ?s = Goes k u"
    by (simp add: run_simps state_simps)
  with preemption_survives [OF sample_spawned s(1-4) this] s(5) show ?thesis by auto
qed

subsection \<open>Addresses\<close>

text \<open>C29: mangling an address and undoing it, as \<open>siglongjmp\<close> does, are inverse to each other for
  every guard word, on x86-64 and on 32-bit x86: no two addresses share a mangled form and every
  word is one.\<close>

theorem translate_address_bijective:
  "restore_address g (translate_address g a) = a
   \<and> translate_address g (restore_address g a) = a
   \<and> restore_address_i386 h (translate_address_i386 h b) = b
   \<and> translate_address_i386 h (restore_address_i386 h b) = b"
  using x86_64.demangle_mangle [of g a] i386.demangle_mangle [of h b]
  by (simp add: translate_address_def restore_address_def translate_address_i386_def
      restore_address_i386_def xor.assoc)

end
