(* ===== verification/Departures.thy ===== *)
theory Departures
  imports Robustness
begin

section \<open>Where the code departs from its documentation\<close>

text \<open>
  \<open>uthreads.h\<close> documents what the functions promise.  This theory states what the code does where
  the two differ: blocking oneself and sleeping do not take the thread off the processor for
  longer than one round, a resumed thread cannot be blocked again, a thread that terminated
  itself can be leaked, and using its ID before it is deleted corrupts the table.
\<close>

subsection \<open>Giving up the processor\<close>

lemma comes_round:
  assumes "reachable u" "tick_enabled u" "currentTid u # readyQueue u = q @ [t]" "q \<noteq> []"
    and "totalQuantums u + int (length q) < INT_MAX"
  shows "\<exists>w. ticks (length q) u = Some w \<and> currentTid w = t
    \<and> totalQuantums w = totalQuantums u + int (length q)"
proof -
  obtain i where i: "length q = Suc i" using assms(4) by (cases q) auto
  have "length (readyQueue u) = Suc i" using assms(3) i by (metis length_Cons length_append_singleton nat.inject)
  moreover have "readyQueue u ! i = t" using assms(3) i by (metis nth_Cons_Suc nth_append_length)
  moreover have "totalQuantums u + int i < INT_MAX" using assms(5) i by simp
  ultimately show ?thesis
    using ticks_serve [OF assms(1,2), of i] i by auto
qed

text \<open>A thread that blocks itself or goes to sleep is put back into the ready queue by the switch
  itself, since \<open>doContextSwitch\<close> requeues whoever calls it.\<close>

lemma depart_requeues:
  assumes "reachable s" "allowed s c" "totalQuantums s < INT_MAX" "currentTid s \<noteq> 0"
    and al: "alloc_ok al s"
    and dep: "departs c s = Some (site, v)" and site: "site \<noteq> From_terminate"
  shows "currentTid (switch_to site v) # readyQueue (switch_to site v) = readyQueue s @ [currentTid s]"
    and "\<exists>a b. table v (currentTid s) = Some a \<and> table (switch_to site v) (currentTid s) = Some b
      \<and> state b \<noteq> BLOCKED \<and> didUserBlock b = didUserBlock a"
    and "reachable (switch_to site v)" and "tick_enabled (switch_to site v)"
proof -
  note inv = reachable_inv [OF assms(1)]
  note d = sched_invD [OF inv]
  have sw: "switchable site v" by (rule depart_switchable [OF inv assms(3,2) dep])
  note fr = depart_frame [OF dep] and ne = ready_not_empty [OF inv assms(4)]
  have "tids s \<noteq> {currentTid s}" using main_exists [OF d(1)] assms(4) by auto
  then have rq: "requeues v" using requeues_iff [OF sw] site fr by simp
  then show "currentTid (switch_to site v) # readyQueue (switch_to site v)
      = readyQueue s @ [currentTid s]"
    using ne fr by (simp add: next_tid_def next_queue_def)
  obtain th where "table s (currentTid s) = Some th" by (rule sched_inv_current [OF inv])
  then obtain a where a: "table v (currentTid s) = Some a"
    using depart_table [OF d(4) dep] by auto
  have "\<not> (reaps site v \<and> currentTid s = pendingDeletionTid v)"
    using sw site fr(1) by (auto simp: reaps_def switchable_def pend_ok_def split: if_splits)
  then show "\<exists>a b. table v (currentTid s) = Some a \<and> table (switch_to site v) (currentTid s) = Some b
      \<and> state b \<noteq> BLOCKED \<and> didUserBlock b = didUserBlock a"
    using a rq fr(1) by (auto simp: table_switch_to [OF switchableD(3) [OF sw]] switch_thread_def
        Let_def inc_def setState_def)
  show "tick_enabled (switch_to site v)" by (rule switch_to_tick_enabled [OF sw])
  show "reachable (switch_to site v)"
  proof -
    have "c \<noteq> Terminate 0" using dep by (auto simp: departs_def)
    then show ?thesis
      using call_eval [OF inv al assms(2,3)] dep reachable_call [OF assms(1) al assms(2,3)]
      by (simp add: call_result_def)
  qed
qed

text \<open>C30: \<open>uthread_block\<close> of the caller does not block.  The state BLOCKED is overwritten and the
  caller goes to the end of the ready queue, so it runs again after as many ticks as there were
  threads ready, although nobody resumed it.  Only the user's mark stays set.\<close>

theorem self_block_only_yields:
  assumes "reachable s" "alloc_ok al s" "currentTid s \<noteq> 0"
    and "table s (currentTid s) = Some th" "\<not> didUserBlock th"
    and "totalQuantums s + int (length (readyQueue s)) + 1 < INT_MAX"
  shows "\<exists>k u uh w. perform al (Block (currentTid s)) s = Goes k u
    \<and> currentTid u # readyQueue u = readyQueue s @ [currentTid s]
    \<and> table u (currentTid s) = Some uh \<and> state uh \<noteq> BLOCKED \<and> didUserBlock uh
    \<and> ticks (length (readyQueue s)) u = Some w \<and> currentTid w = currentTid s"
proof -
  note inv = reachable_inv [OF assms(1)]
  let ?c = "Block (currentTid s)" and ?v = "self_blocked s"
  have ok: "allowed s ?c" by (simp add: allowed_def)
  have max: "totalQuantums s < INT_MAX" using assms(6) by simp
  have dep: "departs ?c s = Some (From_block, ?v)"
    using assms(3-5) by (simp add: departs_def flagged_def)
  note rq = depart_requeues [OF assms(1) ok max assms(3,2) dep]
  let ?u = "switch_to From_block ?v"
  have go: "perform al ?c s = Goes (continues (next_context From_block ?v)) ?u"
    using call_eval [OF inv assms(2) ok max] dep by (simp add: call_result_def)
  have "table ?v (currentTid s) = Some (th\<lparr>state := BLOCKED, didUserBlock := True\<rparr>)"
    using assms(4) sched_invD(4) [OF inv] by (simp add: self_blocked_def)
  with rq(2) obtain uh where uh: "table ?u (currentTid s) = Some uh" "state uh \<noteq> BLOCKED"
    "didUserBlock uh" by auto
  from comes_round [OF rq(3,4) rq(1) ready_not_empty [OF inv assms(3)]] assms(6)
    depart_frame(3) [OF dep]
  obtain w where "ticks (length (readyQueue s)) ?u = Some w" "currentTid w = currentTid s"
    by auto
  with go rq(1) uh show ?thesis by blast
qed

theorem self_block_only_yields_witness:
  "\<exists>k u w. perform (memory 9) (Block 1) (after [Call (Spawn 77), Call (Spawn 88), Tick]) = Goes k u
     \<and> ticks 2 u = Some w \<and> currentTid w = 1"
proof -
  let ?s = "after [Call (Spawn 77), Call (Spawn 88), Tick]"
  obtain th where s: "alloc_ok (memory 9) ?s" "currentTid ?s \<noteq> 0" "table ?s (currentTid ?s) = Some th"
    "\<not> didUserBlock th" "totalQuantums ?s + int (length (readyQueue ?s)) + 1 < INT_MAX"
    "currentTid ?s = 1" "length (readyQueue ?s) = 2"
    by (simp add: run_simps state_simps)
  from self_block_only_yields [OF sample_running s(1-5)] s(6,7) show ?thesis by auto
qed



subsection \<open>Resuming\<close>

text \<open>\<open>uthread_resume\<close> of a thread that is blocked and not sleeping leaves the user's mark set.
  The thread is READY and in the queue again, but from then on blocking it has no effect at all:
  \<open>uthread_block\<close> returns 0 and the thread stays in the queue.\<close>

lemma resumed_thread_cannot_be_blocked_again:
  assumes "reachable s" "table s t = Some th" "state th = BLOCKED" "didUserBlock th"
    "t \<notin> sleepers s" "\<not> terminated th"
  shows "\<exists>u uh. uthread_resume t s = Done 0 u \<and> table u t = Some uh \<and> state uh = READY
    \<and> t \<in> set (readyQueue u) \<and> uthread_block t u = Done 0 u"
proof -
  note inv = reachable_inv [OF assms(1)] and t = table_tids [OF assms(2)]
  note d = sched_invD [OF inv]
  let ?u = "resumed_state t s"
  have "t \<noteq> currentTid s" using current_running [OF inv] assms(2,3) by auto
  then have tz: "t \<noteq> 0"
    using shape_waiting [OF d(1) assms(2)] d(14) assms(3) by (auto simp: waiting_ok_def)
  have r: "uthread_resume t s = Done 0 ?u"
    using resume_blocked [OF d(6) assms(2) _ assms(3)] tid_range [OF inv t]
    by (simp add: uthread_resume_known inv t)
  have iu: "sched_inv ?u" by (rule resumed_state_inv [OF inv assms(2,6,3)])
  have tab: "table ?u t = Some (th\<lparr>state := READY\<rparr>)" "t \<in> set (readyQueue ?u)"
    using assms(2,5) d(4) by (simp_all add: resumed_state_def)
  have "flagged ?u t" using tab(1) assms(4) by (simp add: flagged_def)
  then have "uthread_block t ?u = Done 0 ?u"
    using block_eval [OF iu tz table_tids [OF tab(1)]]
    by (simp add: uthread_block_known [OF iu table_tids [OF tab(1)] tz])
  with r tab show ?thesis by auto
qed

lemma resumed_thread_cannot_be_blocked_again_witness:
  "\<exists>u. uthread_resume 1 (after [Call (Spawn 77), Call (Spawn 88), Call (Block 1)]) = Done 0 u
     \<and> uthread_block 1 u = Done 0 u \<and> 1 \<in> set (readyQueue u)"
proof -
  let ?s = "after [Call (Spawn 77), Call (Spawn 88), Call (Block 1)]"
  obtain th where th: "table ?s 1 = Some th" "state th = BLOCKED" "didUserBlock th"
    "1 \<notin> sleepers ?s" "\<not> terminated th"
    by (simp add: run_simps state_simps)
  from resumed_thread_cannot_be_blocked_again [OF sample_blocked th] show ?thesis by blast
qed

subsection \<open>Terminating\<close>

text \<open>A thread that terminated itself and is no longer the pending deletion.\<close>

definition leaked :: "int \<Rightarrow> machine \<Rightarrow> bool" where
  "leaked t s \<longleftrightarrow> sched_inv s \<and> t \<noteq> currentTid s \<and> t \<noteq> pendingDeletionTid s
     \<and> terminated_in s t"

lemma stays_pending:
  "pendingDeletionTid (snd (stays al c s)) = pendingDeletionTid s"
  "currentTid (snd (stays al c s)) = currentTid s"
  by (cases c, auto simp: stays_def complain_def blocked_state_def resumed_state_def
      removed_state_def split: option.splits)+

lemma leaked_stays:
  assumes l: "leaked t s" and al: "alloc_ok al s" and c: "c \<noteq> Terminate t"
  shows "terminated_in (snd (stays al c s)) t"
proof -
  have inv: "sched_inv s" and tm: "terminated_in s t" using l by (simp_all add: leaked_def)
  note own = sched_invD(4) [OF inv]
  have t: "t \<in> tids s" using tm by (auto simp: terminated_in_def table_tids split: option.splits)
  show ?thesis
  proof (cases c)
    case (Spawn entry)
    have "table (spawned al entry (free_tid s) s) t = table s t" if "free_tid s \<noteq> -1"
      using table_spawned [OF own al, of "free_tid s" entry] free_tid_spec [of s] that t by auto
    then show ?thesis using Spawn tm by (simp add: stays_def complain_def terminated_in_def)
  next
    case (Terminate u)
    then show ?thesis
      using removed_table(1) [OF own, of u] c tm
      by (auto simp: stays_def complain_def terminated_in_def)
  next
    case (Block u)
    then show ?thesis using own tm
      by (auto simp: stays_def complain_def blocked_state_def terminated_in_def terminated_def
          split: option.splits)
  next
    case (Resume u)
    then show ?thesis using own tm
      by (auto simp: stays_def complain_def resumed_state_def terminated_in_def terminated_def
          split: option.splits)
  qed (use tm in \<open>auto simp: stays_def complain_def terminated_in_def split: option.splits\<close>)
qed

lemma leaked_switch:
  assumes sw: "switchable site u" and t: "terminated_in u t" "t \<noteq> currentTid u"
    "t \<noteq> pendingDeletionTid u"
  shows "terminated_in (switch_to site u) t" and "t \<noteq> pendingDeletionTid (switch_to site u)"
    and "t \<noteq> currentTid (switch_to site u)"
proof -
  obtain th where th: "table u t = Some th" "terminated th"
    using t(1) by (auto simp: terminated_in_def split: option.splits)
  have "t \<notin> set (readyQueue u)"
    using shape_waiting [OF switchableD(1) [OF sw] th(1) t(2)] th(2) by (simp add: waiting_ok_def)
  then have n: "t \<noteq> next_tid u" using next_tid_cases [of u] t(2) by auto
  then show "t \<noteq> currentTid (switch_to site u)" by simp
  show "terminated_in (switch_to site u) t"
    using th t n by (auto simp: terminated_in_def table_switch_to [OF switchableD(3) [OF sw]]
        switch_thread_def)
  have "t \<noteq> -1" using table_tids [OF th(1)] shape_fields(8) [OF switchableD(1) [OF sw]] by auto
  then show "t \<noteq> pendingDeletionTid (switch_to site u)"
    using t(3) by (simp add: pending_switch_to split: jmp_env.splits)
qed

lemma leaked_step:
  assumes l: "leaked t s" and step: "sparing_step t s e u"
  shows "leaked t u"
proof -
  have inv: "sched_inv s" and cur: "t \<noteq> currentTid s"
    and tm: "terminated_in s t" "t \<noteq> pendingDeletionTid s"
    using l by (simp_all add: leaked_def)
  note own = sched_invD(4) [OF inv]
  have st: "lib_step s e u" and sp: "spares t e" using step by (simp_all add: sparing_step_def)
  obtain th where th: "table s t = Some th" "terminated th"
    using tm(1) by (auto simp: terminated_in_def split: option.splits)
  have "terminated_in u t \<and> t \<noteq> pendingDeletionTid u \<and> t \<noteq> currentTid u"
    using st inv
  proof (cases rule: step_cases)
    case (stay al c)
    then show ?thesis
      using leaked_stays [OF l stay(1)] sp tm(2) cur by (simp add: spares_def stays_pending)
  next
    case (depart c site v k)
    have "terminated_in v t"
      using depart_table [OF own depart(2)] th cur by (auto simp: terminated_in_def)
    moreover have "t \<noteq> pendingDeletionTid v"
      using depart(2) tm(2) cur by (auto simp: departs_def self_terminated_def self_blocked_def
          put_to_sleep_def split: api_call.splits if_splits)
    ultimately show ?thesis
      using leaked_switch [OF depart(3)] cur depart(5) depart_frame(1) [OF depart(2)] by simp
  next
    case (tick k)
    have "terminated_in (before_tick_switch s) t"
      using th by (simp add: terminated_in_def before_tick_table [OF own] terminated_def)
    then show ?thesis
      using leaked_switch [OF tick_ready(1) [OF inv tick(1,2)]] cur tm(2) tick(4)
      by (simp add: after_tick_def)
  next
    case (rehash ts sl)
    then show ?thesis using tm cur by (simp add: terminated_in_def)
  qed
  then show ?thesis using lib_step_inv [OF inv st] by (simp add: leaked_def)
qed

interpretation leaking: safe_system "leaked t" "sparing_step t" "leaked t" for t
  by unfold_locales (auto intro: leaked_step)

text \<open>C32: a thread can be leaked.  When a second thread terminates itself before the first one's
  deletion was carried out, only the second is deleted.  The first then keeps its ID, its object
  and its stack in every later state of the process, unless somebody terminates the dead thread
  once more or the process ends.\<close>

theorem terminated_thread_leaks:
  assumes "reachable s" "table s t = Some th" "terminated th" "t \<noteq> currentTid s"
    "t \<noteq> pendingDeletionTid s" "reach (\<lambda>x. x = s) (sparing_step t) u"
  shows "\<exists>uh. table u t = Some uh \<and> terminated uh \<and> currentTid u \<noteq> t \<and> t \<notin> set (readyQueue u)
    \<and> (t \<noteq> 0 \<longrightarrow> stack uh \<in> set (live_stacks u))"
proof -
  have "leaked t s"
    using reachable_inv [OF assms(1)] assms(2-5) by (simp add: leaked_def terminated_in_def)
  then have "leaked t u"
    using leaking.reach_inv reach_mono [OF assms(6), of "leaked t"] by blast
  then obtain uh where uh: "sched_inv u" "table u t = Some uh" "terminated uh" "t \<noteq> currentTid u"
    by (auto simp: leaked_def terminated_in_def split: option.splits)
  have "waiting_ok u t uh" by (rule shape_waiting [OF sched_invD(1) [OF uh(1)] uh(2,4)])
  moreover have "t \<noteq> 0 \<longrightarrow> stack uh \<in> set (live_stacks u)"
    using sched_invD(5) [OF uh(1)] uh(2) unfolding stacks_ok_def by blast
  ultimately show ?thesis using uh by (auto simp: waiting_ok_def)
qed

lemma sample_leak:
  "reachable (after [Call (Spawn 77), Call (Spawn 88), Tick, Call (Terminate 1), Call (Terminate 2)])"
  by (rule after_reachable) (simp add: run_simps state_simps)

theorem terminated_thread_leaks_witness:
  "\<exists>th. table (after [Call (Spawn 77), Call (Spawn 88), Tick, Call (Terminate 1),
       Call (Terminate 2)]) 1 = Some th \<and> terminated th"
proof -
  let ?s = "after [Call (Spawn 77), Call (Spawn 88), Tick, Call (Terminate 1), Call (Terminate 2)]"
  obtain th where th: "table ?s 1 = Some th" "terminated th" "1 \<noteq> currentTid ?s"
    "1 \<noteq> pendingDeletionTid ?s"
    by (simp add: run_simps state_simps)
  have "reach (\<lambda>x. x = ?s) (sparing_step 1) ?s" by (rule reach_start) simp
  from terminated_thread_leaks [OF sample_leak th this] show ?thesis by blast
qed

subsection \<open>Faults\<close>

text \<open>A deadline beyond \<open>INT_MAX\<close> is a signed overflow.  \<open>uthread_sleep\<close> adds the number of
  quanta to the total without a check, so a call with a number its own checks accept is
  undefined behaviour when the sum exceeds an \<open>int\<close>.\<close>

lemma sleep_deadline_overflows:
  assumes "reachable s" "currentTid s \<noteq> 0" "0 < n" "n \<le> INT_MAX" "INT_MAX < totalQuantums s + n"
  shows "\<exists>u. perform al (Sleep n) s = Halts (Fault Int_overflow) u"
proof -
  note inv = reachable_inv [OF assms(1)]
  note d = sched_invD [OF inv]
  obtain th where th: "table s (currentTid s) = Some th" by (rule sched_inv_current [OF inv])
  have "\<not> int_ok (totalQuantums s + n)" using assms(5) by (simp add: int_ok_def)
  from sleep_overflow [OF d(6,4) th this] assms(2,3) show ?thesis
    by (auto simp: perform_def uthread_sleep_def getTid_def act_simps)
qed

lemma sleep_deadline_overflows_witness:
  "\<exists>u. perform (memory 9) (Sleep 2147483647) (after [Call (Spawn 77), Call (Spawn 88), Tick])
     = Halts (Fault Int_overflow) u"
  by (rule sleep_deadline_overflows [OF sample_running]) (simp_all add: run_simps state_simps)

text \<open>An execution that ends in a null dereference.  A thread terminates itself; the next one,
  started at its entry point, terminates the same ID (the library answers 0 although that thread
  is gone) and spawns a thread that gets the ID again.  The next switch carries out the
  deletion that is still pending and deletes the new, living thread; the switch after it
  dereferences a null pointer.\<close>

lemma stale_deletion_kills_new_thread:
  "\<exists>u v. play 1 [Call (Spawn 77), Call (Spawn 88), Tick, Call (Terminate 1), Call (Terminate 1),
       Call (Spawn 99), Tick] first_state = Goes (Comes_back (From_timer {})) u
     \<and> 1 \<in> set (readyQueue u) \<and> 1 \<notin> tids u
     \<and> play 1 [Call (Spawn 77), Call (Spawn 88), Tick, Call (Terminate 1), Call (Terminate 1),
       Call (Spawn 99), Tick, Tick] first_state = Halts (Fault Null_pointer) v"
  by (simp add: run_simps state_simps)

text \<open>A thread that slept and then terminates itself deletes itself while it is running: it is
  in the ready queue a second time, the switch picks it again, and the deletion behind
  \<open>sigsetjmp\<close> frees the object and the stack of the thread that is executing it;
  \<open>uthread_terminate\<close> then returns to its caller on the freed stack.  This is the program of
  \<open>TomTests/test1.cpp\<close>.\<close>

lemma sleeper_deletes_itself:
  "\<exists>u. play 1 [Call (Spawn 77), Call (Spawn 88), Tick, Call (Sleep 1), Call (Terminate 2), Tick,
       Call (Terminate 1)] first_state = Goes (Comes_back From_terminate) u
     \<and> currentTid u = 1 \<and> 1 \<notin> tids u \<and> table u 1 = None"
  by (simp add: run_simps state_simps)

end
