(* ===== verification/Contract.thy ===== *)
theory Contract
  imports Departures
begin

section \<open>The scheduling policy and its refinement\<close>

text \<open>
  The policy the library implements, without pointers, heap, stacks, contexts, signal masks,
  timer and messages: which thread runs, who waits in which order, who is held back and why, how
  many quanta were used.  Every step of the modelled process is a step of the policy, under an
  abstraction function; the locale carries this over to executions.
\<close>

subsection \<open>The policy\<close>

text \<open>Whether a thread has not run yet, has run, or has terminated itself.\<close>

datatype progress = Fresh | Started | Gone

record entry =
  status :: ThreadState
  marked :: bool
  quanta :: int
  stage :: progress

record policy =
  running :: int
  ready :: "int list"
  entries :: "int \<Rightarrow> entry option"
  deadlines :: "int \<Rightarrow> int option"
  dying :: "int option"
  total :: int

definition p_update :: "int \<Rightarrow> (entry \<Rightarrow> entry) \<Rightarrow> policy \<Rightarrow> policy" where
  "p_update t f a = a\<lparr>entries := (entries a)(t := map_option f (entries a t))\<rparr>"

definition p_all_tids :: "int list" where
  "p_all_tids = [0..MAX_THREAD_NUM - 1]"

definition p_alone :: "policy \<Rightarrow> bool" where
  "p_alone a \<longleftrightarrow> list_all (\<lambda>k. k = running a \<or> entries a k = None) p_all_tids"

definition p_queue :: "bool \<Rightarrow> policy \<Rightarrow> int list" where
  "p_queue gone a = (if gone \<or> p_alone a then ready a else ready a @ [running a])"

definition p_next :: "bool \<Rightarrow> policy \<Rightarrow> int" where
  "p_next gone a = (if p_queue gone a = [] then running a else hd (p_queue gone a))"

definition p_leave :: "bool \<Rightarrow> policy \<Rightarrow> entry \<Rightarrow> entry" where
  "p_leave gone a e = e\<lparr>stage := (if gone then Gone else Started),
     status := (if gone \<or> p_alone a then status e else READY)\<rparr>"

definition p_enter :: "bool \<Rightarrow> policy \<Rightarrow> entry \<Rightarrow> entry" where
  "p_enter gone a e = e\<lparr>status := (if p_queue gone a = [] then status e else RUNNING),
     quanta := quanta e + 1\<rparr>"

definition p_changed :: "bool \<Rightarrow> policy \<Rightarrow> int \<Rightarrow> entry \<Rightarrow> entry" where
  "p_changed gone a t e = (if t = p_next gone a then p_enter gone a else (\<lambda>e. e))
     ((if t = running a then p_leave gone a else (\<lambda>e. e)) e)"

text \<open>
  A switch.  The thread that leaves goes to the end of the queue, unless it has gone for good;
  the first of the queue runs, in a new quantum.  A thread that has run before clears away the
  one that is dying.
\<close>

definition p_starts :: "bool \<Rightarrow> policy \<Rightarrow> bool" where
  "p_starts gone a = (case entries a (p_next gone a) of None \<Rightarrow> False
     | Some e \<Rightarrow> stage (p_changed gone a (p_next gone a) e) = Fresh)"

definition p_switch :: "bool \<Rightarrow> policy \<Rightarrow> policy" where
  "p_switch gone a = a\<lparr>running := p_next gone a, ready := tl (p_queue gone a), total := total a + 1,
     entries := (\<lambda>t. if \<not> p_starts gone a \<and> dying a = Some t then None
                     else map_option (p_changed gone a t) (entries a t)),
     dying := (if p_starts gone a then dying a else None)\<rparr>"

definition p_free :: "policy \<Rightarrow> int option" where
  "p_free a = find (\<lambda>t. entries a t = None) p_all_tids"

text \<open>A call: what it returns, or \<open>None\<close> when it hands over the processor, and the next state.\<close>

fun p_call :: "api_call \<Rightarrow> policy \<Rightarrow> int option \<times> policy" where
  "p_call (Init q) a = (Some 0, a)"
| "p_call (Spawn f) a = (if f = 0 then (Some (-1), a) else case p_free a of
     None \<Rightarrow> (Some (-1), a)
   | Some t \<Rightarrow> (Some t, a\<lparr>ready := ready a @ [t], entries := (entries a)(t \<mapsto>
       \<lparr>status = READY, marked = False, quanta = 0, stage = Fresh\<rparr>)\<rparr>))"
| "p_call (Terminate t) a =
    (if entries a t = None then (Some (-1), a)
     else if t = running a
     then (None, p_switch True ((p_update t (\<lambda>e. e\<lparr>status := READY\<rparr>) a)\<lparr>dying := Some t\<rparr>))
     else (Some 0, a\<lparr>entries := (entries a)(t := None), deadlines := (deadlines a)(t := None),
                     ready := filter (\<lambda>x. x \<noteq> t) (ready a)\<rparr>))"
| "p_call (Block t) a = (case entries a t of None \<Rightarrow> (Some (-1), a) | Some e \<Rightarrow>
     if t = 0 then (Some (-1), a) else if marked e then (Some 0, a)
     else if t = running a
     then (None, p_switch False (p_update t (\<lambda>e. e\<lparr>status := BLOCKED, marked := True\<rparr>) a))
     else (Some 0, (p_update t (\<lambda>e. e\<lparr>status := BLOCKED, marked := True\<rparr>) a)
                     \<lparr>ready := filter (\<lambda>x. x \<noteq> t) (ready a)\<rparr>))"
| "p_call (Resume t) a = (case entries a t of None \<Rightarrow> (Some (-1), a) | Some e \<Rightarrow>
     if status e \<noteq> BLOCKED then (Some 0, a)
     else if deadlines a t \<noteq> None then (Some 0, p_update t (\<lambda>e. e\<lparr>marked := False\<rparr>) a)
     else (Some 0, (p_update t (\<lambda>e. e\<lparr>status := READY\<rparr>) a)\<lparr>ready := ready a @ [t]\<rparr>))"
| "p_call (Sleep n) a =
    (if n \<le> 0 \<or> running a = 0 then (Some (-1), a)
     else (None, p_switch False ((p_update (running a) (\<lambda>e. e\<lparr>status := BLOCKED\<rparr>) a)
            \<lparr>deadlines := (deadlines a)(running a \<mapsto> total a + n)\<rparr>)))"
| "p_call Get_tid a = (Some (running a), a)"
| "p_call Get_total_quantums a = (Some (total a), a)"
| "p_call (Get_quantums t) a =
    (case entries a t of None \<Rightarrow> (Some (-1), a) | Some e \<Rightarrow> (Some (quanta e), a))"

text \<open>Waking the threads \<open>ws\<close>, in some order, when their deadlines have come.\<close>

definition p_wake :: "int list \<Rightarrow> policy \<Rightarrow> policy" where
  "p_wake ws a = a\<lparr>ready := ready a @ ws,
     entries := (\<lambda>t. if t \<in> set ws then map_option (\<lambda>e. e\<lparr>status := READY\<rparr>) (entries a t)
                     else entries a t),
     deadlines := (\<lambda>t. case deadlines a t of None \<Rightarrow> None
                     | Some d \<Rightarrow> if total a < d then Some d else None)\<rparr>"

definition p_due :: "policy \<Rightarrow> int \<Rightarrow> bool" where
  "p_due a t = (case deadlines a t of None \<Rightarrow> False | Some d \<Rightarrow> d \<le> total a
     \<and> (case entries a t of None \<Rightarrow> False | Some e \<Rightarrow> \<not> marked e))"

definition p_returns :: "control \<Rightarrow> int option" where
  "p_returns k = (case k of Returns v \<Rightarrow> Some v | _ \<Rightarrow> None)"

inductive p_step :: "policy \<Rightarrow> event \<Rightarrow> policy \<Rightarrow> bool" where
  p_called: "p_call c a = (p_returns k, b) \<Longrightarrow> p_step a (Called c k) b"
| p_ticked: "distinct ws \<Longrightarrow> (\<And>t. t \<in> set ws \<longleftrightarrow> p_due a t) \<Longrightarrow> p_returns k = None \<Longrightarrow>
     p_step a (Ticked k) (p_switch False (p_wake ws a))"
| p_rehashed: "p_step a Rehashed a"

inductive_simps p_step_rehashed: "p_step a Rehashed b"

definition p_first :: policy where
  "p_first = \<lparr>running = 0, ready = [],
     entries = [0 \<mapsto> \<lparr>status = RUNNING, marked = False, quanta = 1, stage = Started\<rparr>],
     deadlines = (\<lambda>_. None), dying = None, total = 1\<rparr>"

subsection \<open>The abstraction\<close>

definition view :: "thread \<Rightarrow> entry" where
  "view th = \<lparr>status = state th, marked = didUserBlock th, quanta = quantumCount th,
     stage = (case env th of Env_entry _ _ _ \<Rightarrow> Fresh | Env_switch From_terminate _ \<Rightarrow> Gone
              | _ \<Rightarrow> Started)\<rparr>"

definition abs_sched :: "machine \<Rightarrow> policy" where
  "abs_sched s = \<lparr>running = currentTid s, ready = readyQueue s,
     entries = (\<lambda>t. map_option view (table s t)), deadlines = um_find (sleepingThreads s),
     dying = (if pendingDeletionTid s = -1 then None else Some (pendingDeletionTid s)),
     total = totalQuantums s\<rparr>"

lemma abs_simps [simp]:
  "running (abs_sched s) = currentTid s" "ready (abs_sched s) = readyQueue s"
  "entries (abs_sched s) t = map_option view (table s t)"
  "deadlines (abs_sched s) = um_find (sleepingThreads s)" "total (abs_sched s) = totalQuantums s"
  "dying (abs_sched s) = (if pendingDeletionTid s = -1 then None else Some (pendingDeletionTid s))"
  by (simp_all add: abs_sched_def)

lemma view_simps [simp]:
  "status (view th) = state th" "marked (view th) = didUserBlock th"
  "quanta (view th) = quantumCount th"
  "view (th\<lparr>state := st\<rparr>) = (view th)\<lparr>status := st\<rparr>"
  "view (th\<lparr>didUserBlock := b\<rparr>) = (view th)\<lparr>marked := b\<rparr>"
  "view (th\<lparr>quantumCount := q\<rparr>) = (view th)\<lparr>quanta := q\<rparr>"
  by (simp_all add: view_def)

lemma view_saved: "view (th\<lparr>env := Env_switch site m\<rparr>)
    = (view th)\<lparr>stage := (if site = From_terminate then Gone else Started)\<rparr>"
  by (cases site) (simp_all add: view_def)

lemma view_fresh:
  "stage (view th) = Fresh \<longleftrightarrow> (case env th of Env_entry _ _ _ \<Rightarrow> True | _ \<Rightarrow> False)"
  by (simp add: view_def split: jmp_env.splits call_site.splits)

lemma policy_eqI:
  "running a = running b \<Longrightarrow> ready a = ready b \<Longrightarrow> (\<And>t. entries a t = entries b t) \<Longrightarrow>
     (\<And>t. deadlines a t = deadlines b t) \<Longrightarrow> dying a = dying b \<Longrightarrow> total a = total b \<Longrightarrow>
     a = (b :: policy)"
  by (rule policy.equality) (simp_all add: fun_eq_iff)

subsection \<open>Switching\<close>

lemma entries_None: "owned u \<Longrightarrow> entries (abs_sched u) t = None \<longleftrightarrow> t \<notin> tids u"
  by (simp add: owned_None)

lemma p_alone_abs:
  assumes "shape u"
  shows "p_alone (abs_sched u) \<longleftrightarrow> tids u = {currentTid u}"
proof -
  note f = shape_fields [OF assms]
  have "p_alone (abs_sched u) \<longleftrightarrow>
      (\<forall>k. 0 \<le> k \<and> k < MAX_THREAD_NUM \<longrightarrow> k = currentTid u \<or> k \<notin> tids u)"
    using entries_None [OF f(2)]
    by (auto simp: p_alone_def p_all_tids_def list_all_iff)
  then show ?thesis using f(8,9) by fastforce
qed

lemma p_queue_abs:
  assumes "switchable site u"
  shows "p_queue (site = From_terminate) (abs_sched u) = next_queue u"
  using requeues_iff [OF assms]
  by (simp add: p_queue_def next_queue_def p_alone_abs [OF switchableD(1) [OF assms]])

lemma p_next_abs:
  "switchable site u \<Longrightarrow> p_next (site = From_terminate) (abs_sched u) = next_tid u"
  by (simp add: p_next_def next_tid_def p_queue_abs)

lemma p_changed_abs:
  assumes "switchable site u"
  shows "p_changed (site = From_terminate) (abs_sched u) t (view th) = view (switch_thread site u t th)"
proof -
  have al: "(site = From_terminate \<or> p_alone (abs_sched u)) \<longleftrightarrow> \<not> requeues u"
    using requeues_iff [OF assms] p_alone_abs [OF switchableD(1) [OF assms]] by simp
  show ?thesis
    by (simp add: p_changed_def p_leave_def p_enter_def p_next_abs [OF assms] p_queue_abs [OF assms]
        al switch_thread_def Let_def inc_def view_saved)
qed

lemma p_starts_abs:
  assumes sw: "switchable site u"
  shows "p_starts (site = From_terminate) (abs_sched u) \<longleftrightarrow>
    (case next_context site u of Env_switch _ _ \<Rightarrow> False | _ \<Rightarrow> True)"
proof -
  obtain n where n: "table u (next_tid u) = Some n"
    using next_tid_exists [OF switchableD(1) [OF sw]] switchableD(3) [OF sw]
    by (auto simp: owned_table)
  have "next_context site u = env (switch_thread site u (next_tid u) n)"
    using n by (simp add: next_context_def table_switched [OF switchableD(3) [OF sw]])
  then have "p_starts (site = From_terminate) (abs_sched u) \<longleftrightarrow>
      (case next_context site u of Env_entry _ _ _ \<Rightarrow> True | _ \<Rightarrow> False)"
    using n by (simp add: p_starts_def p_next_abs [OF sw] p_changed_abs [OF sw] view_fresh)
  then show ?thesis
    using next_context_ok(1) [OF sw] by (cases "next_context site u") simp_all
qed

lemma abs_switch:
  assumes sw: "switchable site u"
  shows "abs_sched (switch_to site u) = p_switch (site = From_terminate) (abs_sched u)"
proof (rule policy_eqI)
  have pend: "reaps site u \<longleftrightarrow> pendingDeletionTid u \<noteq> -1
      \<and> \<not> p_starts (site = From_terminate) (abs_sched u)"
    by (auto simp: reaps_def p_starts_abs [OF sw] split: jmp_env.splits)
  fix t
  show "entries (abs_sched (switch_to site u)) t
      = entries (p_switch (site = From_terminate) (abs_sched u)) t"
    by (cases "table u t") (auto simp: p_switch_def table_switch_to [OF switchableD(3) [OF sw]] pend
        p_changed_abs [OF sw])
next
  show "dying (abs_sched (switch_to site u))
      = dying (p_switch (site = From_terminate) (abs_sched u))"
    by (auto simp: p_switch_def pending_switch_to p_starts_abs [OF sw] split: jmp_env.splits)
qed (simp_all add: p_switch_def p_next_abs [OF sw] p_queue_abs [OF sw])

subsection \<open>Calls\<close>

lemma p_free_abs:
  assumes "owned s"
  shows "p_free (abs_sched s) = (if free_tid s = -1 then None else Some (free_tid s))"
proof (cases "free_tid s = -1")
  case True
  then have "\<forall>t \<in> set p_all_tids. entries (abs_sched s) t \<noteq> None"
    using free_tid_spec [of s] entries_None [OF assms] by (auto simp: p_all_tids_def)
  then show ?thesis using True by (simp add: p_free_def find_None_iff)
next
  case False
  then have f: "0 \<le> free_tid s" "free_tid s < MAX_THREAD_NUM" "free_tid s \<notin> tids s"
    "\<forall>t. 0 \<le> t \<and> t < free_tid s \<longrightarrow> t \<in> tids s"
    using free_tid_spec [of s] by auto
  let ?i = "nat (free_tid s)"
  have l: "?i < length p_all_tids" "p_all_tids ! ?i = free_tid s"
    using f(1,2) by (simp_all add: p_all_tids_def)
  have "p_all_tids ! j \<in> tids s" if "j < ?i" for j
    using f(2,4) that by (auto simp: p_all_tids_def)
  then have "find (\<lambda>t. t \<notin> tids s) p_all_tids = Some (free_tid s)"
    using l f(3) by (auto simp: find_Some_iff intro!: exI [of _ ?i])
  then have "find (\<lambda>t. entries (abs_sched s) t = None) p_all_tids = Some (free_tid s)"
    unfolding entries_None [OF assms] .
  then show ?thesis using False by (simp add: p_free_def)
qed

lemma abs_frame [simp]:
  "abs_sched (s\<lparr>sigmask := m\<rparr>) = abs_sched s" "abs_sched (s\<lparr>cerr := e\<rparr>) = abs_sched s"
  by (simp_all add: abs_sched_def)

lemma abs_upd:
  assumes "owned s" "\<And>th. view (f th) = g (view th)"
  shows "abs_sched (upd_th t f s) = p_update t g (abs_sched s)"
  using assms by (intro policy_eqI) (simp_all add: p_update_def option.map_comp comp_def)

lemma abs_departs:
  assumes inv: "sched_inv s" and dep: "departs c s = Some (site, u)"
  shows "p_call c (abs_sched s) = (None, p_switch (site = From_terminate) (abs_sched u))"
proof -
  note d = sched_invD [OF inv]
  obtain th where th: "table s (currentTid s) = Some th" by (rule sched_inv_current [OF inv])
  have cur: "currentTid s \<noteq> -1" using current_valid [OF d(1)] by simp
  show ?thesis
  proof (cases c)
    case (Terminate t)
    then have t: "t = currentTid s" "site = From_terminate" "u = self_terminated s"
      using dep by (auto simp: departs_def split: if_splits)
    have "abs_sched u = (p_update t (\<lambda>e. e\<lparr>status := READY\<rparr>) (abs_sched s))\<lparr>dying := Some t\<rparr>"
      using d(4) cur t by (intro policy_eqI)
        (simp_all add: self_terminated_def p_update_def option.map_comp comp_def)
    then show ?thesis using Terminate t th by simp
  next
    case (Block t)
    then have t: "t = currentTid s" "site = From_block" "u = self_blocked s" "t \<noteq> 0"
      "\<not> flagged s t"
      using dep by (auto simp: departs_def split: if_splits)
    have "abs_sched u = p_update t (\<lambda>e. e\<lparr>status := BLOCKED, marked := True\<rparr>) (abs_sched s)"
      using t abs_upd [OF d(4)] by (simp add: self_blocked_def)
    then show ?thesis using Block t th by (simp add: flagged_def)
  next
    case (Sleep n)
    then have t: "site = From_sleep" "u = put_to_sleep n s" "0 < n" "currentTid s \<noteq> 0"
      using dep by (auto simp: departs_def split: if_splits)
    have "abs_sched u = (p_update (currentTid s) (\<lambda>e. e\<lparr>status := BLOCKED\<rparr>) (abs_sched s))
        \<lparr>deadlines := (um_find (sleepingThreads s))(currentTid s \<mapsto> totalQuantums s + n)\<rparr>"
      using d(4) t by (intro policy_eqI)
        (simp_all add: put_to_sleep_def p_update_def option.map_comp comp_def)
    then show ?thesis using Sleep t by simp
  qed (use dep in simp_all)
qed

lemma abs_stays:
  assumes inv: "sched_inv s" and al: "alloc_ok al s" and dep: "departs c s = None"
    and c: "c \<noteq> Terminate 0"
  shows "p_call c (abs_sched s)
    = (Some (fst (stays al c s)), abs_sched (snd (stays al c s)))"
proof -
  note d = sched_invD [OF inv]
  note none = owned_None [OF d(4)]
  show ?thesis
  proof (cases c)
    case (Spawn f)
    have "abs_sched (spawned al f (free_tid s) s) = (abs_sched s)\<lparr>ready := readyQueue s @ [free_tid s],
        entries := (entries (abs_sched s))(free_tid s \<mapsto>
          \<lparr>status = READY, marked = False, quanta = 0, stage = Fresh\<rparr>)\<rparr>" if "free_tid s \<noteq> -1"
      using table_spawned [OF d(4) al, of "free_tid s" f] free_tid_spec [of s] that
      by (intro policy_eqI) (auto simp: new_thread_def view_def)
    then show ?thesis
      using Spawn by (simp add: stays_def complain_def p_free_abs [OF d(4)])
  next
    case (Terminate t)
    show ?thesis
    proof (cases "t \<in> tids s")
      case True
      then obtain th where th: "table s t = Some th" using sched_inv_tid [OF inv] by auto
      have t: "t \<noteq> currentTid s" using Terminate dep c by (auto simp: departs_def split: if_splits)
      have "abs_sched (removed_state t s) = (abs_sched s)\<lparr>entries := (entries (abs_sched s))(t := None),
          deadlines := (um_find (sleepingThreads s))(t := None),
          ready := filter (\<lambda>x. x \<noteq> t) (readyQueue s)\<rparr>"
        using removed_table(1) [OF d(4), of t]
        by (intro policy_eqI) (simp_all add: removed_state_def)
      then show ?thesis using Terminate True t th by (simp add: stays_def)
    qed (use Terminate none in \<open>simp add: stays_def complain_def\<close>)
  next
    case (Block t)
    show ?thesis
    proof (cases "t \<in> tids s")
      case True
      then obtain th where th: "table s t = Some th" using sched_inv_tid [OF inv] by auto
      have "abs_sched (blocked_state t s)
          = (p_update t (\<lambda>e. e\<lparr>status := BLOCKED, marked := True\<rparr>) (abs_sched s))
              \<lparr>ready := filter (\<lambda>x. x \<noteq> t) (readyQueue s)\<rparr>"
        using d(4) by (intro policy_eqI)
          (simp_all add: blocked_state_def p_update_def option.map_comp comp_def)
      then show ?thesis
        using Block True th dep by (auto simp: stays_def complain_def flagged_def departs_def
          split: if_splits)
    qed (use Block none in \<open>auto simp: stays_def complain_def\<close>)
  next
    case (Resume t)
    show ?thesis
    proof (cases "t \<in> tids s")
      case True
      then obtain th where th: "table s t = Some th" using sched_inv_tid [OF inv] by auto
      have sl: "t \<in> sleepers s \<longleftrightarrow> um_find (sleepingThreads s) t \<noteq> None"
        by (simp add: sleepers_def um.keys_find)
      have "abs_sched (resumed_state t s) = (if t \<in> sleepers s
          then p_update t (\<lambda>e. e\<lparr>marked := False\<rparr>) (abs_sched s)
          else (p_update t (\<lambda>e. e\<lparr>status := READY\<rparr>) (abs_sched s))\<lparr>ready := readyQueue s @ [t]\<rparr>)"
        using d(4) by (intro policy_eqI)
          (simp_all add: resumed_state_def p_update_def option.map_comp comp_def)
      then show ?thesis
        using Resume True th sl by (simp add: stays_def blocked_in_def)
    qed (use Resume none in \<open>simp add: stays_def complain_def\<close>)
  next
    case (Sleep n)
    then show ?thesis using dep by (auto simp: stays_def complain_def departs_def split: if_splits)
  next
    case (Get_quantums t)
    then show ?thesis by (cases "table s t") (simp_all add: stays_def complain_def)
  qed (simp_all add: stays_def)
qed

subsection \<open>Ticks\<close>

lemma due_abs: "owned s \<Longrightarrow> t \<in> set (wakes s (sleepingThreads s)) \<longleftrightarrow> p_due (abs_sched s) t"
  by (auto simp: sleeping_due p_due_def flagged_def split: option.splits)

lemma abs_before_tick:
  assumes "owned s"
  shows "abs_sched (before_tick_switch s) = p_wake (wakes s (sleepingThreads s)) (abs_sched s)"
proof (rule policy_eqI)
  fix t
  show "entries (abs_sched (before_tick_switch s)) t
      = entries (p_wake (wakes s (sleepingThreads s)) (abs_sched s)) t"
    by (simp add: before_tick_table [OF assms] p_wake_def option.map_comp comp_def)
  have "um_find (sleepingThreads (woken s)) t = Some d \<longleftrightarrow>
      deadlines (p_wake (wakes s (sleepingThreads s)) (abs_sched s)) t = Some d" for d
    by (auto simp: still_asleep [OF assms] p_wake_def split: option.splits)
  then show "deadlines (abs_sched (before_tick_switch s)) t
      = deadlines (p_wake (wakes s (sleepingThreads s)) (abs_sched s)) t"
    by (simp, metis not_None_eq)
qed (simp_all add: p_wake_def before_tick_switch_def woken_queue [OF assms])

subsection \<open>Refinement\<close>

locale refinement = safe_system +
  fixes abs :: "'a \<Rightarrow> 'c"
    and a_start :: "'c \<Rightarrow> bool"
    and a_step :: "'c \<Rightarrow> 'b \<Rightarrow> 'c \<Rightarrow> bool"
  assumes abs_start: "start s \<Longrightarrow> a_start (abs s)"
    and abs_step: "inv s \<Longrightarrow> step s e t \<Longrightarrow> a_step (abs s) e (abs t)"
begin

lemma reach_abs: "reach start step s \<Longrightarrow> reach a_start a_step (abs s)"
proof (induction rule: reach.induct)
  case (reach_start s)
  then show ?case by (intro reach.reach_start abs_start)
next
  case (reach_step s e t)
  then show ?case using abs_step [OF reach_inv] reach.reach_step by metis
qed

end

lemma continues_hands_over:
  "switchable site u \<Longrightarrow> p_returns (continues (next_context site u)) = None"
  using next_context_ok(1) [of site u]
  by (cases "next_context site u") (simp_all add: continues_def p_returns_def)

lemma abs_lib_step:
  assumes inv: "sched_inv s" and step: "lib_step s e t"
  shows "p_step (abs_sched s) e (abs_sched t)"
  using step inv
proof (cases rule: step_cases)
  case (stay al c)
  then show ?thesis
    using abs_stays [OF inv stay(1,3,4)] by (auto intro!: p_called simp: p_returns_def)
next
  case (depart c site u k)
  have "p_returns k = None"
    using continues_hands_over [OF depart(3)] depart(6) by simp
  then show ?thesis
    using abs_departs [OF inv depart(2)] abs_switch [OF depart(3)] depart(4,5)
    by (auto intro!: p_called)
next
  case (tick k)
  note own = sched_invD(4) [OF inv] and tr = tick_ready [OF inv tick(1,2)]
  have "p_returns k = None" using continues_hands_over [OF tr(1)] tick(5) by simp
  then have "p_step (abs_sched s) (Ticked k)
      (p_switch False (p_wake (wakes s (sleepingThreads s)) (abs_sched s)))"
    by (intro p_ticked sleeping_distinct [OF own] due_abs [OF own])
  then show ?thesis
    using abs_switch [OF tr(1)] tick(3,4) by (simp add: after_tick_def abs_before_tick [OF own])
next
  case (rehash ts sl)
  have "abs_sched t = abs_sched s"
    using rehash by (intro policy_eqI) simp_all
  then show ?thesis using rehash(1) by (simp add: p_rehashed)
qed

lemma abs_lib_start: "lib_start s \<Longrightarrow> abs_sched s = p_first"
proof -
  assume "lib_start s"
  then obtain obj q g m where b: "s = booted obj q g m" by (auto simp: lib_start_def init_eval)
  show "abs_sched s = p_first"
    unfolding b by (intro policy_eqI)
      (simp_all add: booted_table p_first_def view_def main_thread_def,
        simp_all add: booted_def um_find_def)
qed

interpretation policy: refinement lib_start lib_step sched_inv abs_sched "\<lambda>a. a = p_first" p_step
  by unfold_locales (auto intro: abs_lib_start abs_lib_step)

text \<open>C6: every execution of the library is an execution of the scheduling policy, and every step
  of it a step of the policy.  A reachable state abstracts to a state the policy reaches, and for
  each call, tick and rehashing from it the policy makes the same step between the abstracted
  states: the same thread runs next, the queue has the same order, the same threads are held
  back, the same quanta are counted, and a call that returns returns the value the policy
  prescribes.\<close>

theorem scheduler_refines_policy:
  assumes "reachable s" "lib_step s e t"
  shows "reach (\<lambda>a. a = p_first) p_step (abs_sched s) \<and> p_step (abs_sched s) e (abs_sched t)"
  using policy.reach_abs [OF assms(1)] abs_lib_step [OF reachable_inv [OF assms(1)] assms(2)] by blast

theorem scheduler_refines_policy_witness:
  "\<exists>k t. tick (after [Call (Spawn 77), Call (Spawn 88)]) = Goes k t
     \<and> p_step (abs_sched (after [Call (Spawn 77), Call (Spawn 88)])) (Ticked k) (abs_sched t)"
proof -
  let ?s = "after [Call (Spawn 77), Call (Spawn 88)]"
  have en: "tick_enabled ?s" "totalQuantums ?s < INT_MAX" by (simp_all add: run_simps state_simps)
  obtain k t where t: "tick ?s = Goes k t" by (simp add: run_simps state_simps)
  from scheduler_refines_policy [OF sample_spawned lib_step.timer [OF en t]] t show ?thesis by blast
qed

end
