(* ===== verification/Header.thy ===== *)
theory Header
  imports Contract
begin

section \<open>The documented interface\<close>

text \<open>
  The promises of the comments in \<open>uthreads.h\<close>, one predicate per function, on the state before a
  call and its result; and the exact set of calls for which the code keeps them.  ``On failure,
  return -1'' is read as: the scheduler is as before.  Where the text is silent (a sleep of no
  quanta) every result is accepted.  What the comments say of later moments is not part of the
  predicates: the end of a sleep is the subject of \<open>Ticks\<close>, the counting of quanta of \<open>Behaviour\<close>.
\<close>

text \<open>The same threads, in the same states and the same order.\<close>

definition same_threads :: "machine \<Rightarrow> machine \<Rightarrow> bool" where
  "same_threads s u \<longleftrightarrow> currentTid u = currentTid s \<and> tids u = tids s
     \<and> readyQueue u = readyQueue s \<and> sleepingThreads u = sleepingThreads s
     \<and> (\<forall>t. map_option state (table u t) = map_option state (table s t))"

definition returns_with :: "int \<Rightarrow> (machine \<Rightarrow> bool) \<Rightarrow> result \<Rightarrow> bool" where
  "returns_with v P r = (case r of Goes (Returns w) u \<Rightarrow> w = v \<and> P u | _ \<Rightarrow> False)"

definition fails :: "machine \<Rightarrow> result \<Rightarrow> bool" where
  "fails s r = returns_with (-1) (same_threads s) r"

definition state_of :: "machine \<Rightarrow> int \<Rightarrow> ThreadState option" where
  "state_of s t = map_option state (table s t)"

definition doc_spawn :: "machine \<Rightarrow> address \<Rightarrow> result \<Rightarrow> bool" where
  "doc_spawn s entry r = (if entry = 0 \<or> card (tids s) = nat MAX_THREAD_NUM then fails s r
     else (\<exists>t u th. r = Goes (Returns t) u \<and> 0 \<le> t \<and> t < MAX_THREAD_NUM \<and> t \<notin> tids s
       \<and> table u = (table s)(t \<mapsto> th) \<and> state th = READY \<and> stack th \<in> set (live_stacks u)
       \<and> stack th \<notin> set (live_stacks s) \<and> readyQueue u = readyQueue s @ [t]
       \<and> currentTid u = currentTid s))"

definition doc_terminate :: "machine \<Rightarrow> int \<Rightarrow> result \<Rightarrow> bool" where
  "doc_terminate s t r = (if t \<notin> tids s then fails s r
     else if t = 0 then (case r of Halts (Exit n) u \<Rightarrow> n = 0 \<and> heap u = [] \<and> live_stacks u = [] | _ \<Rightarrow> False)
     else (case r of Halts _ _ \<Rightarrow> False
       | Goes k u \<Rightarrow> t \<notin> tids u \<and> t \<notin> set (readyQueue u) \<and> t \<notin> sleepers u
           \<and> (if t = currentTid s then \<forall>v. k \<noteq> Returns v else k = Returns 0)))"

definition doc_block :: "machine \<Rightarrow> int \<Rightarrow> result \<Rightarrow> bool" where
  "doc_block s t r = (if t \<notin> tids s \<or> t = 0 then fails s r
     else if state_of s t = Some BLOCKED then returns_with 0 (same_threads s) r
     else (case r of Halts _ _ \<Rightarrow> False
       | Goes k u \<Rightarrow> state_of u t = Some BLOCKED
           \<and> (if t = currentTid s then \<forall>v. k \<noteq> Returns v else k = Returns 0)))"

definition doc_resume :: "machine \<Rightarrow> int \<Rightarrow> result \<Rightarrow> bool" where
  "doc_resume s t r = (if t \<notin> tids s then fails s r
     else if state_of s t \<noteq> Some BLOCKED then returns_with 0 (same_threads s) r
     else returns_with 0 (\<lambda>u. t \<in> sleepers s \<and> same_threads s u
       \<or> state_of u t = Some READY \<and> readyQueue u = readyQueue s @ [t]) r)"

definition doc_sleep :: "machine \<Rightarrow> int \<Rightarrow> result \<Rightarrow> bool" where
  "doc_sleep s n r = (if currentTid s = 0 then fails s r
     else if n \<le> 0 then True
     else (case r of Halts _ _ \<Rightarrow> False
       | Goes k u \<Rightarrow> state_of u (currentTid s) = Some BLOCKED
           \<and> currentTid s \<notin> set (readyQueue u) \<and> (\<forall>v. k \<noteq> Returns v)))"

definition doc_get_tid :: "machine \<Rightarrow> result \<Rightarrow> bool" where
  "doc_get_tid s r = returns_with (currentTid s) (same_threads s) r"

definition doc_get_total_quantums :: "machine \<Rightarrow> result \<Rightarrow> bool" where
  "doc_get_total_quantums s r = returns_with (totalQuantums s) (same_threads s) r"

definition doc_get_quantums :: "machine \<Rightarrow> int \<Rightarrow> result \<Rightarrow> bool" where
  "doc_get_quantums s t r = (case table s t of None \<Rightarrow> fails s r
     | Some th \<Rightarrow> returns_with (quantumCount th) (same_threads s) r)"

definition doc_init :: "int \<Rightarrow> result \<Rightarrow> bool" where
  "doc_init q r = (if q \<le> 0 then (case r of Goes k u \<Rightarrow> k = Returns (-1) | _ \<Rightarrow> False)
     else returns_with 0 (\<lambda>u. currentTid u = 0 \<and> state_of u 0 = Some RUNNING
       \<and> totalQuantums u = 1 \<and> (\<exists>i. itimer u = Some i \<and> microseconds (it_value i) = q)) r)"

definition documented :: "machine \<Rightarrow> api_call \<Rightarrow> result \<Rightarrow> bool" where
  "documented s c r = (case c of
     Init q \<Rightarrow> doc_init q r
   | Spawn e \<Rightarrow> doc_spawn s e r
   | Terminate t \<Rightarrow> doc_terminate s t r
   | Block t \<Rightarrow> doc_block s t r
   | Resume t \<Rightarrow> doc_resume s t r
   | Sleep n \<Rightarrow> doc_sleep s n r
   | Get_tid \<Rightarrow> doc_get_tid s r
   | Get_total_quantums \<Rightarrow> doc_get_total_quantums s r
   | Get_quantums t \<Rightarrow> doc_get_quantums s t r)"

text \<open>
  The calls for which the code does something else: a thread blocks itself; a thread whose mark
  was left behind by a resume is blocked again; a thread sleeps; a thread terminates itself when
  the next one has not run before, so that its memory is not released.
\<close>

definition starts_fresh :: "machine \<Rightarrow> int \<Rightarrow> bool" where
  "starts_fresh s t = (case table s t of None \<Rightarrow> False
     | Some th \<Rightarrow> (case env th of Env_entry _ _ _ \<Rightarrow> True | _ \<Rightarrow> False))"

definition undocumented :: "machine \<Rightarrow> api_call \<Rightarrow> bool" where
  "undocumented s c = (case c of
     Block t \<Rightarrow> t \<noteq> 0 \<and> t \<in> tids s \<and> \<not> blocked_in s t \<and> (t = currentTid s \<or> flagged s t)
   | Sleep n \<Rightarrow> 0 < n \<and> currentTid s \<noteq> 0
   | Terminate t \<Rightarrow> t \<noteq> 0 \<and> t = currentTid s \<and> starts_fresh s (hd (readyQueue s))
   | _ \<Rightarrow> False)"

subsection \<open>The calls that stay\<close>

lemma state_of_blocked: "state_of s t = Some BLOCKED \<longleftrightarrow> blocked_in s t"
  by (auto simp: state_of_def blocked_in_def split: option.splits)

lemma same_refl [simp]: "same_threads s s" "same_threads s (s\<lparr>sigmask := m\<rparr>)"
  "same_threads s (s\<lparr>cerr := e\<rparr>)" "same_threads s (s\<lparr>sigmask := m, cerr := e\<rparr>)"
  by (simp_all add: same_threads_def)

lemma returns_with_simps [simp]:
  "returns_with v P (Goes (Returns w) u) \<longleftrightarrow> w = v \<and> P u" "\<not> returns_with v P (Halts e u)"
  "\<not> returns_with v P (Goes (Starts sp pc) u)" "\<not> returns_with v P (Goes (Comes_back b) u)"
  by (simp_all add: returns_with_def)

lemma fails_complain [simp]:
  "fails s (Goes (Returns (fst (complain msg s))) (snd (complain msg s)))"
  by (simp add: fails_def complain_def)

lemma full_iff:
  assumes "sched_inv s"
  shows "card (tids s) = nat MAX_THREAD_NUM \<longleftrightarrow> free_tid s = -1"
proof -
  note d = sched_invD(10) [OF assms]
  have c: "card {0..<MAX_THREAD_NUM} = nat MAX_THREAD_NUM" by simp
  show ?thesis
  proof
    assume "card (tids s) = nat MAX_THREAD_NUM"
    then have "tids s = {0..<MAX_THREAD_NUM}" using card_subset_eq [OF _ d] c by simp
    then show "free_tid s = -1" using free_tid_spec [of s] by auto
  next
    assume "free_tid s = -1"
    then have "{0..<MAX_THREAD_NUM} \<subseteq> tids s" using free_tid_spec [of s] by auto
    then have "tids s = {0..<MAX_THREAD_NUM}" using d by blast
    then show "card (tids s) = nat MAX_THREAD_NUM" using c by simp
  qed
qed

lemma stays_documented:
  assumes inv: "sched_inv s" and al: "alloc_ok al s" and ok: "allowed s c"
    and dep: "departs c s = None" and c: "c \<noteq> Terminate 0"
  shows "documented s c (Goes (Returns (fst (stays al c s))) (snd (stays al c s)))
    \<longleftrightarrow> \<not> undocumented s c"
proof -
  note d = sched_invD [OF inv]
  note own = d(4)
  show ?thesis
  proof (cases c)
    case (Init q)
    then show ?thesis using ok by (simp add: allowed_def)
  next
    case (Spawn e)
    have "doc_spawn s e (Goes (Returns (free_tid s)) (spawned al e (free_tid s) s))"
      if f: "free_tid s \<noteq> -1" "e \<noteq> 0"
    proof -
      have t: "0 \<le> free_tid s" "free_tid s < MAX_THREAD_NUM" "free_tid s \<notin> tids s"
        using free_tid_spec [of s] f by auto
      note tab = table_spawned [OF own al t(3), of e]
      have "stack_addr al \<in> set (live_stacks (spawned al e (free_tid s) s))"
        "stack_addr al \<notin> set (live_stacks s)"
        using al by (simp_all add: spawned_def alloc_ok_def)
      with t f tab full_iff [OF inv] show ?thesis
        unfolding doc_spawn_def
        by (simp, intro exI [of _ "new_thread al e (free_tid s) s"]) (simp add: new_thread_def)
    qed
    then show ?thesis
      using Spawn full_iff [OF inv]
      by (auto simp: documented_def undocumented_def stays_def doc_spawn_def)
  next
    case (Terminate t)
    have t: "t \<noteq> currentTid s" "t \<noteq> 0" using Terminate dep c by (auto simp: departs_def split: if_splits)
    then have "\<not> undocumented s c" using Terminate by (simp add: undocumented_def)
    then show ?thesis
      using Terminate t removed_table(2) [OF own, of t]
      by (simp add: documented_def doc_terminate_def stays_def)
  next
    case (Block t)
    show ?thesis
    proof (cases "t \<in> tids s \<and> t \<noteq> 0")
      case True
      then obtain th where th: "table s t = Some th" using sched_inv_tid [OF inv] by auto
      have cur: "flagged s t" if "t = currentTid s"
        using that dep Block True by (auto simp: departs_def split: if_splits)
      have w: "waiting_ok s t th" if "t \<noteq> currentTid s"
        by (rule shape_waiting [OF d(1) th that])
      have "same_threads s (blocked_state t s)" if "\<not> flagged s t" "blocked_in s t"
        using that th own w cur filter_neq_idem [of t "readyQueue s"]
        by (auto simp: same_threads_def blocked_state_def blocked_in_def waiting_ok_def)
      moreover have "state_of (blocked_state t s) t = Some BLOCKED"
        using th own by (simp add: state_of_def blocked_state_def)
      ultimately show ?thesis
        using Block True cur
        by (auto simp: documented_def doc_block_def undocumented_def stays_def state_of_blocked)
    qed (use Block in \<open>auto simp: documented_def doc_block_def undocumented_def stays_def\<close>)
  next
    case (Resume t)
    show ?thesis
    proof (cases "t \<in> tids s")
      case True
      then obtain th where th: "table s t = Some th" using sched_inv_tid [OF inv] by auto
      have "t \<in> sleepers s \<and> same_threads s (resumed_state t s)
          \<or> state_of (resumed_state t s) t = Some READY
            \<and> readyQueue (resumed_state t s) = readyQueue s @ [t]"
        using th own
        by (auto simp: same_threads_def resumed_state_def state_of_def option.map_comp comp_def)
      then show ?thesis
        using Resume True
        by (auto simp: documented_def doc_resume_def undocumented_def stays_def state_of_blocked)
    qed (use Resume in \<open>simp add: documented_def doc_resume_def undocumented_def stays_def\<close>)
  next
    case (Sleep n)
    then show ?thesis
      using dep by (auto simp: documented_def doc_sleep_def undocumented_def stays_def departs_def
          split: if_splits)
  next
    case (Get_quantums t)
    then show ?thesis
      by (auto simp: documented_def doc_get_quantums_def undocumented_def stays_def complain_def
          fails_def split: option.splits)
  qed (simp_all add: documented_def doc_get_tid_def doc_get_total_quantums_def undocumented_def
      stays_def)
qed

subsection \<open>The calls that hand over the processor\<close>

lemma self_termination:
  assumes inv: "sched_inv s" and ok: "allowed s (Terminate (currentTid s))"
    and max: "totalQuantums s < INT_MAX" and cur: "currentTid s \<noteq> 0"
  defines "u \<equiv> switch_to From_terminate (self_terminated s)"
  shows "currentTid s \<in> tids u \<longleftrightarrow> starts_fresh s (hd (readyQueue s))"
    and "currentTid s \<notin> set (readyQueue u)" "currentTid s \<notin> sleepers u"
proof -
  note d = sched_invD [OF inv]
  let ?v = "self_terminated s"
  have dep: "departs (Terminate (currentTid s)) s = Some (From_terminate, ?v)"
    using cur by (simp add: departs_def)
  have sw: "switchable From_terminate ?v" by (rule depart_switchable [OF inv max ok dep])
  have dead: "currentTid s \<notin> set (readyQueue s)" "currentTid s \<notin> sleepers s"
    using ok cur by (auto simp: allowed_def)
  have ne: "readyQueue s \<noteq> []" by (rule ready_not_empty [OF inv cur])
  have nq: "next_queue ?v = readyQueue s" "next_tid ?v = hd (readyQueue s)"
    using ne by (simp_all add: next_queue_def next_tid_def requeues_def self_terminated_def)
  have n: "hd (readyQueue s) \<noteq> currentTid s" using dead(1) ne by (metis hd_in_set)
  have "hd (readyQueue s) \<in> tids s" using d(12) ne by auto
  then obtain th where th: "table s (hd (readyQueue s)) = Some th" using sched_inv_tid [OF inv] by auto
  have tv: "table ?v (hd (readyQueue s)) = Some th"
    using th n d(4) by (simp add: self_terminated_def)
  have cv: "currentTid ?v = currentTid s" by (simp add: self_terminated_def)
  have "next_context From_terminate ?v = env th"
    using n by (simp add: next_context_def table_switched [OF switchableD(3) [OF sw]] nq tv cv
        switch_thread_def Let_def inc_def)
  then have "reaps From_terminate ?v \<longleftrightarrow> \<not> starts_fresh s (hd (readyQueue s))"
    using next_context_ok(1) [OF sw] th current_valid [OF d(1)]
    by (auto simp: reaps_def starts_fresh_def self_terminated_def split: jmp_env.splits)
  then show "currentTid s \<in> tids u \<longleftrightarrow> starts_fresh s (hd (readyQueue s))"
    using tids_switch_to [OF switchableD(3) [OF sw]] d(11)
    by (simp add: u_def self_terminated_def)
  show "currentTid s \<notin> set (readyQueue u)" "currentTid s \<notin> sleepers u"
    using dead ne nq(1) by (auto simp: u_def self_terminated_def dest: list.set_sel)
qed

lemma departs_documented:
  assumes "reachable s" "alloc_ok al s" "allowed s c" "totalQuantums s < INT_MAX"
    and dep: "departs c s = Some (site, v)"
  shows "documented s c (Goes (continues (next_context site v)) (switch_to site v))
    \<longleftrightarrow> \<not> undocumented s c"
proof -
  note inv = reachable_inv [OF assms(1)]
  note d = sched_invD [OF inv]
  have sw: "switchable site v" by (rule depart_switchable [OF inv assms(4,3) dep])
  have nr: "continues (next_context site v) \<noteq> Returns w" for w
    using next_context_ok(1) [OF sw] by (cases "next_context site v") (simp_all add: continues_def)
  have notb: "\<not> blocked_in s (currentTid s)"
    using current_running [OF inv] by (auto simp: blocked_in_def split: option.splits)
  have cz: "currentTid s \<noteq> 0" using dep by (auto simp: departs_def split: api_call.splits if_splits)
  have notblocked: "\<not> blocked_in (switch_to site v) (currentTid s)" if "site \<noteq> From_terminate"
    using depart_requeues(2) [OF assms(1,3,4) cz assms(2) dep that] by (auto simp: blocked_in_def)
  show ?thesis
  proof (cases c)
    case (Terminate t)
    then have t: "t = currentTid s" "site = From_terminate" "v = self_terminated s"
      using dep by (auto simp: departs_def split: if_splits)
    show ?thesis
      using self_termination [OF inv _ assms(4) cz] Terminate t assms(3) nr cz d(11)
      by (simp add: documented_def doc_terminate_def undocumented_def)
  next
    case (Block t)
    then have t: "t = currentTid s" "site = From_block"
      using dep by (auto simp: departs_def split: if_splits)
    then show ?thesis
      using Block notb notblocked cz d(11)
      by (simp add: documented_def doc_block_def undocumented_def state_of_blocked)
  next
    case (Sleep n)
    then have "site = From_sleep" "0 < n" using dep by (auto simp: departs_def split: if_splits)
    then show ?thesis
      using Sleep notblocked cz
      by (simp add: documented_def doc_sleep_def undocumented_def state_of_blocked)
  qed (use dep in simp_all)
qed

text \<open>Initialisation does what its comment says, for every argument, while system calls succeed.\<close>

lemma init_documented:
  assumes "obj_addr al \<noteq> 0" "q \<le> INT_MAX"
  shows "documented s (Init q) (settle (uthread_init al q (boot g m [])))"
proof (cases "q \<le> 0")
  case True
  then show ?thesis
    by (simp add: documented_def doc_init_def uthread_init_def act_simps)
next
  case False
  have "state_of (booted (obj_addr al) q g m) 0 = Some RUNNING"
    by (simp add: state_of_def booted_table main_thread_def)
  moreover have "microseconds (it_value (quantum_timer q)) = q"
    using False by (simp add: quantum_timer_def microseconds_def Let_def signed_divide_int_def
        signed_modulo_int_def sgn_if)
  ultimately show ?thesis
    using False assms
    by (simp add: documented_def doc_init_def init_eval booted_def)
qed



end
