(* ===== verification/Debug.thy ===== *)
theory Debug
  imports Contract
begin

section \<open>The debug printer\<close>

text \<open>
  \<open>Scheduler::debugPrintThreads\<close>: it writes one line per thread, in the iteration order of the
  table, and one line with the ready queue, which it takes from a copy.  The stream keeps its
  number base between insertions.  The registers that \<open>sigsetjmp\<close> saved are not part of the
  model; \<open>saved\<close> gives the two words found in the buffer of a thread that was switched out.
\<close>

subsection \<open>A stream with a number base\<close>

record ostream =
  written :: string
  in_hex :: bool

fun show_hex :: "nat \<Rightarrow> string" where
  "show_hex n = (if n < 16 then [''0123456789abcdef'' ! n]
     else show_hex (n div 16) @ [''0123456789abcdef'' ! (n mod 16)])"

declare show_hex.simps [simp del]

definition put_str :: "string \<Rightarrow> ostream \<Rightarrow> ostream" where
  "put_str str o1 = o1\<lparr>written := written o1 @ str\<rparr>"

text \<open>An \<open>int\<close> in base 16 is printed as the unsigned number with the same bits.\<close>

definition put_int :: "int \<Rightarrow> ostream \<Rightarrow> ostream" where
  "put_int i o1 = put_str (if in_hex o1 then show_hex (nat (i mod 2 ^ 32)) else show_int i) o1"

definition put_word :: "address \<Rightarrow> ostream \<Rightarrow> ostream" where
  "put_word w o1 = put_str (if in_hex o1 then show_hex (unat w) else show_nat (unat w)) o1"

definition set_hex :: "bool \<Rightarrow> ostream \<Rightarrow> ostream" where
  "set_hex b o1 = o1\<lparr>in_hex := b\<rparr>"

definition endl :: string where
  "endl = [CHR 0x0A]"

subsection \<open>The function\<close>

definition saved_registers :: "(int \<Rightarrow> address \<times> address) \<Rightarrow> int \<Rightarrow> jmp_env \<Rightarrow> address \<times> address" where
  "saved_registers saved tid e = (case e of
     Env_zero \<Rightarrow> (0, 0) | Env_entry sp pc _ \<Rightarrow> (sp, pc) | Env_switch _ _ \<Rightarrow> saved tid)"

definition state_name :: "ThreadState \<Rightarrow> string" where
  "state_name st = (case st of READY \<Rightarrow> ''READY'' | RUNNING \<Rightarrow> ''RUNNING'' | BLOCKED \<Rightarrow> ''BLOCKED'')"

definition print_thread :: "(int \<Rightarrow> address \<times> address) \<Rightarrow> int \<Rightarrow> thread \<Rightarrow> ostream \<Rightarrow> ostream" where
  "print_thread saved tid th o0 = (let
     o1 = put_str '', '' (put_int tid (put_str ''Thread ID: '' o0));
     (sp, pc) = saved_registers saved tid (getEnv th);
     o2 = put_str '', '' (put_word sp (set_hex True (put_str ''SP: 0x'' o1)));
     o3 = put_str '', '' (put_word pc (set_hex True (put_str ''PC: 0x'' o2)));
     o4 = put_str (state_name (getState th)) (put_str ''State: '' o3)
     in put_str endl (put_int (getQuantumCount th) (set_hex False (put_str '', Quantums: '' o4))))"

text \<open>The loop over the table; \<open>None\<close> when an entry is not a valid pointer.\<close>

fun print_threads ::
  "(int \<Rightarrow> address \<times> address) \<Rightarrow> (address \<times> thread) list \<Rightarrow> address umap \<Rightarrow> ostream \<Rightarrow> ostream option"
  where
  "print_threads saved h [] o1 = Some o1"
| "print_threads saved h ((tid, p) # es) o1 = (case um_find h p of
     None \<Rightarrow> None
   | Some th \<Rightarrow> print_threads saved h es (print_thread saved tid th o1))"

text \<open>The loop over the copy of the ready queue.\<close>

function print_queue :: "int list \<Rightarrow> ostream \<Rightarrow> ostream" where
  "print_queue q o1 = (if q_empty q then o1
     else print_queue (q_pop q) (put_str '' '' (put_int (q_front q) o1)))"
  by pat_completeness auto
termination
  by (relation "measure (\<lambda>(q, o1). length q)") (auto simp: q_empty_def q_pop_def)

declare print_queue.simps [simp del]

definition debugPrintThreads ::
  "(int \<Rightarrow> address \<times> address) \<Rightarrow> machine \<Rightarrow> ostream \<Rightarrow> ostream option" where
  "debugPrintThreads saved s o0 =
     (case print_threads saved (heap s) (threads s)
         (put_str endl (put_str ''=== THREADS REGISTERS DEBUG INFO ==='' o0)) of
       None \<Rightarrow> None
     | Some o1 \<Rightarrow> Some (put_str endl (put_str ''===================================='' (put_str endl
         (print_queue (readyQueue s) (put_str endl (put_str ''--- Ready Queue ---'' o1)))))))"

subsection \<open>What it prints\<close>

definition thread_line :: "(int \<Rightarrow> address \<times> address) \<Rightarrow> int \<Rightarrow> thread \<Rightarrow> string" where
  "thread_line saved tid th = (let (sp, pc) = saved_registers saved tid (env th) in
     ''Thread ID: '' @ show_int tid @ '', SP: 0x'' @ show_hex (unat sp) @ '', PC: 0x''
     @ show_hex (unat pc) @ '', State: '' @ state_name (state th) @ '', Quantums: ''
     @ show_int (quantumCount th) @ endl)"

lemma print_thread_eval:
  "\<not> in_hex o1 \<Longrightarrow> print_thread saved tid th o1
     = o1\<lparr>written := written o1 @ thread_line saved tid th\<rparr>"
  by (cases "saved_registers saved tid (env th)")
    (simp add: print_thread_def thread_line_def Let_def put_str_def put_int_def put_word_def
      set_hex_def)

lemma print_queue_eval:
  "\<not> in_hex o1 \<Longrightarrow> print_queue q o1
     = o1\<lparr>written := written o1 @ concat (map (\<lambda>t. show_int t @ '' '') q)\<rparr>"
proof (induction q arbitrary: o1)
  case Nil
  then show ?case by (simp add: print_queue.simps q_empty_def)
next
  case (Cons t q)
  have "print_queue (t # q) o1 = print_queue q (put_str '' '' (put_int t o1))"
    by (simp add: print_queue.simps [of "t # q"] q_empty_def q_pop_def q_front_def)
  then show ?case
    using Cons.prems Cons.IH [of "put_str '' '' (put_int t o1)"]
    by (simp add: put_str_def put_int_def)
qed

lemma print_threads_eval:
  assumes "\<And>t p. (t, p) \<in> set es \<Longrightarrow> um_find h p = Some (th t)" and "\<not> in_hex o1"
  shows "print_threads saved h es o1
     = Some (o1\<lparr>written := written o1 @ concat (map (\<lambda>e. thread_line saved (fst e) (th (fst e))) es)\<rparr>)"
  using assms
proof (induction es arbitrary: o1)
  case (Cons e es)
  obtain t p where e: "e = (t, p)" by (cases e)
  let ?o = "o1\<lparr>written := written o1 @ thread_line saved t (th t)\<rparr>"
  have "um_find h p = Some (th t)" using Cons.prems(1) [of t p] e by simp
  then have "print_threads saved h (e # es) o1 = print_threads saved h es ?o"
    using Cons.prems(2) by (simp add: e print_thread_eval)
  moreover have "print_threads saved h es ?o = Some (?o\<lparr>written := written ?o
      @ concat (map (\<lambda>e. thread_line saved (fst e) (th (fst e))) es)\<rparr>)"
    using Cons.prems by (intro Cons.IH) auto
  ultimately show ?case by (simp add: e)
qed simp

text \<open>C36: the debug printer never follows a bad pointer, changes neither the scheduler nor the
  stream's number base, and prints exactly one line for each thread of the table, in iteration
  order, with its ID, saved registers, state and quanta, and then the ready queue from front
  to back.\<close>

theorem debug_print_shows_the_state:
  assumes "reachable s" "\<not> in_hex out"
  shows "debugPrintThreads saved s out = Some (out\<lparr>written := written out
    @ ''=== THREADS REGISTERS DEBUG INFO ==='' @ endl
    @ concat (map (\<lambda>e. thread_line saved (fst e) (the (table s (fst e)))) (threads s))
    @ ''--- Ready Queue ---'' @ endl
    @ concat (map (\<lambda>t. show_int t @ '' '') (readyQueue s)) @ endl
    @ ''===================================='' @ endl\<rparr>)"
proof -
  note own = sched_invD(4) [OF reachable_inv [OF assms(1)]]
  have "um_find (heap s) p = Some (the (table s t))" if "(t, p) \<in> set (threads s)" for t p
  proof -
    have "um_find (threads s) t = Some p"
      using um_find_set [OF owned_um_ok(1) [OF own]] that by simp
    with owned_heap [OF own this] show ?thesis by (auto simp: table_def)
  qed
  note pt = print_threads_eval [of "threads s" "heap s" "\<lambda>t. the (table s t)", OF this]
  show ?thesis
    using assms(2) by (simp add: debugPrintThreads_def pt put_str_def print_queue_eval)
qed

theorem debug_print_shows_the_state_witness:
  "\<exists>str. debugPrintThreads (\<lambda>_. (0, 0)) first_state \<lparr>written = [], in_hex = False\<rparr>
     = Some \<lparr>written = str, in_hex = False\<rparr>"
  using debug_print_shows_the_state [OF first_reachable, of "\<lparr>written = [], in_hex = False\<rparr>"]
  by simp

end
