(* ===== verification/Programs.thy ===== *)
theory Programs
  imports Debug
begin

section \<open>Client programs on the modelled library\<close>

text \<open>
  A small language for the programs that come with the library, and their execution: every
  thread has its own locals and the statements it still has to run, all threads share the
  globals, and each statement of the current thread is followed through the library, across
  every switch.  What a program prints, on either stream, is collected in \<open>printed\<close>.
  The timer is asynchronous: a schedule says before which steps it expires.
  \<open>kill(getpid(), SIGVTALRM)\<close> delivers the signal before it returns, since the signal is not
  blocked in user code.
\<close>

type_synonym vars = "string \<Rightarrow> int"

text \<open>Expressions see the locals and the globals.\<close>

type_synonym 'a expr = "vars \<Rightarrow> vars \<Rightarrow> 'a"

datatype stmt =
    Assign string "int expr"
  | Assign_global string "int expr"
  | Invoke string "api_call expr"
  | Put "string expr"
  | Assert "bool expr"
  | Branch "bool expr" "stmt list" "stmt list"
  | Loop "bool expr" "stmt list"
  | Kill_SIGVTALRM

record task =
  rest :: "stmt list"
  locals :: vars

record client =
  process :: machine
  tasks :: "int \<Rightarrow> task"
  globals :: vars
  printed :: string
  steps :: nat

text \<open>
  How a run ends: through a stop of the library (an exit or a fault), by a failed assertion, or by
  a function returning into nothing: the entry function of a thread has no caller.  The return
  of \<open>main\<close> ends the process with its value.
\<close>

datatype ending =
    Stopped stop
  | Assertion_failed int
  | Returned int

datatype run =
    Running client
  | Over ending string

type_synonym program = "address \<Rightarrow> stmt list"

definition no_vars :: vars where
  "no_vars = (\<lambda>_. 0)"

text \<open>
  After a call or a tick of the library.  A thread that starts runs the function its context
  demangles to; the value a call returns is stored by the caller.  A call that hands over the
  processor returns 0 when its thread comes back, so the caller's variable gets that value.
\<close>

definition go_on :: "program \<Rightarrow> string \<Rightarrow> client \<Rightarrow> result \<Rightarrow> run" where
  "go_on prog x c r = (case r of
     Halts e s \<Rightarrow> Over (Stopped e) (printed c)
   | Goes k s \<Rightarrow> Running (c\<lparr>process := s, tasks := (case k of
       Starts sp pc \<Rightarrow> (tasks c)(currentTid s :=
           \<lparr>rest = prog (restore_address (guard s) pc), locals = no_vars\<rparr>)
     | Returns v \<Rightarrow> (tasks c)(currentTid s := (let t = tasks c (currentTid s) in
           t\<lparr>locals := (locals t)(x := v)\<rparr>))
     | Comes_back _ \<Rightarrow> tasks c)\<rparr>))"

text \<open>One statement of the current thread.\<close>

definition exec_stmt :: "program \<Rightarrow> stmt \<Rightarrow> stmt list \<Rightarrow> client \<Rightarrow> run" where
  "exec_stmt prog st todo c = (let
     s = process c; tid = currentTid s; t = tasks c tid; l = locals t; g = globals c;
     cont = (\<lambda>ss. c\<lparr>tasks := (tasks c)(tid := t\<lparr>rest := ss\<rparr>), steps := Suc (steps c)\<rparr>)
     in case st of
       Assign x e \<Rightarrow> Running (c\<lparr>tasks := (tasks c)(tid := t\<lparr>rest := todo, locals := l(x := e l g)\<rparr>),
                               steps := Suc (steps c)\<rparr>)
     | Assign_global x e \<Rightarrow> Running ((cont todo)\<lparr>globals := g(x := e l g)\<rparr>)
     | Invoke x e \<Rightarrow> go_on prog x
           (c\<lparr>tasks := (tasks c)(tid := t\<lparr>rest := todo, locals := l(x := 0)\<rparr>), steps := Suc (steps c)\<rparr>)
           (perform (memory (steps c)) (e l g) s)
     | Put e \<Rightarrow> Running ((cont todo)\<lparr>printed := printed c @ e l g\<rparr>)
     | Assert e \<Rightarrow> if e l g then Running (cont todo) else Over (Assertion_failed tid) (printed c)
     | Branch e ss ts \<Rightarrow> Running (cont ((if e l g then ss else ts) @ todo))
     | Loop e ss \<Rightarrow> Running (cont (if e l g then ss @ Loop e ss # todo else todo))
     | Kill_SIGVTALRM \<Rightarrow> if tick_enabled s then go_on prog [] (cont todo) (tick s)
                        else Running (cont todo))"

text \<open>One step of the process; \<open>expires\<close> says that the timer expires before it.\<close>

definition client_step :: "program \<Rightarrow> bool \<Rightarrow> client \<Rightarrow> run" where
  "client_step prog expires c = (if expires \<and> tick_enabled (process c)
     then go_on prog [] (c\<lparr>steps := Suc (steps c)\<rparr>) (tick (process c))
     else case rest (tasks c (currentTid (process c))) of
       [] \<Rightarrow> Over (Returned (currentTid (process c))) (printed c)
     | st # todo \<Rightarrow> exec_stmt prog st todo c)"

text \<open>A run of at most as many steps as the schedule has entries.\<close>

fun run_client :: "program \<Rightarrow> bool list \<Rightarrow> client \<Rightarrow> run" where
  "run_client prog [] c = Running c"
| "run_client prog (b # bs) c = (case client_step prog b c of
     Running d \<Rightarrow> run_client prog bs d
   | Over e out \<Rightarrow> Over e out)"

definition launch :: "stmt list \<Rightarrow> vars \<Rightarrow> client" where
  "launch main g = \<lparr>process = boot 81985529216486895 {} [],
     tasks = (\<lambda>_. \<lparr>rest = [], locals = no_vars\<rparr>)(0 := \<lparr>rest = main, locals = no_vars\<rparr>),
     globals = g, printed = [], steps = 0\<rparr>"

text \<open>Functions by name: where the linker put them is irrelevant, so two addresses are enough.\<close>

definition addr_f :: address where
  "addr_f = 88"

definition addr_g :: address where
  "addr_g = 77"

definition linked :: "stmt list \<Rightarrow> stmt list \<Rightarrow> program" where
  "linked f g a = (if a = addr_f then f else if a = addr_g then g else [])"

text \<open>Once over, a run stays over, and a longer schedule gives the same result.\<close>

lemma run_client_append:
  "run_client prog (bs @ cs) c = (case run_client prog bs c of
     Running d \<Rightarrow> run_client prog cs d | Over e out \<Rightarrow> Over e out)"
  by (induction bs arbitrary: c) (auto split: run.splits)

lemma run_client_over:
  "run_client prog bs c = Over e out \<Longrightarrow> run_client prog (bs @ cs) c = Over e out"
  by (simp add: run_client_append)

end
