(* ===== verification/Clients.thy ===== *)
theory Clients
  imports Programs
begin

section \<open>The programs that come with the library\<close>

text \<open>
  \<open>TomTests\<close>: the expected output of each program is in its source.  The variable \<open>[]\<close> collects
  results that the source ignores.
\<close>

abbreviation (input) call :: "api_call \<Rightarrow> stmt" where
  "call c \<equiv> Invoke [] (\<lambda>l g. c)"

text \<open>\<open>printf("%d ", uthread_get_tid())\<close>\<close>

definition print_tid :: "stmt list" where
  "print_tid = [Invoke ''t'' (\<lambda>l g. Get_tid), Put (\<lambda>l g. show_int (l ''t'') @ '' '')]"

text \<open>\<open>uthread_terminate(uthread_get_tid())\<close>\<close>

definition terminate_self :: "stmt list" where
  "terminate_self = [Invoke ''t'' (\<lambda>l g. Get_tid), Invoke [] (\<lambda>l g. Terminate (l ''t''))]"

subsection \<open>\<open>test1.cpp\<close>\<close>

definition test1_g :: "stmt list" where
  "test1_g = print_tid @ [call (Sleep 1)] @ print_tid @ [call (Terminate 1)]"

definition test1_f :: "stmt list" where
  "test1_f = print_tid @ terminate_self"

definition test1_main :: "stmt list" where
  "test1_main = [call (Init 999999), call (Spawn addr_g), call (Spawn addr_f), Kill_SIGVTALRM]
     @ print_tid @ [Kill_SIGVTALRM, Put (\<lambda>l g. endl @ ''You should see: 1 2 0 1'' @ endl),
     call (Terminate 0)]"

subsection \<open>\<open>test2.cpp\<close>\<close>

definition test2_g :: "stmt list" where
  "test2_g = print_tid @ [call (Sleep 1)] @ print_tid @ [call (Terminate 1)]"

definition test2_f :: "stmt list" where
  "test2_f = print_tid @ [call (Block 1)] @ terminate_self"

definition test2_main :: "stmt list" where
  "test2_main = [call (Init 999999), call (Spawn addr_g), call (Spawn addr_f), Kill_SIGVTALRM,
     call (Resume 1)] @ print_tid @ [Kill_SIGVTALRM,
     Put (\<lambda>l g. endl @ ''You should see: 1 2 0 1'' @ endl), call (Terminate 0)]"

subsection \<open>\<open>test3.cpp\<close>\<close>

definition test3_g :: "stmt list" where
  "test3_g = print_tid @ [call (Sleep 1)] @ print_tid @ [call (Terminate 1)]"

definition test3_f :: "stmt list" where
  "test3_f = print_tid @ [call (Block 1)] @ terminate_self"

definition test3_main :: "stmt list" where
  "test3_main = [call (Init 999999), call (Spawn addr_g), call (Spawn addr_f), Kill_SIGVTALRM]
     @ print_tid @ [Kill_SIGVTALRM, Put (\<lambda>l g. endl @ ''You should see: 1 2 0'' @ endl),
     call (Terminate 0)]"

subsection \<open>\<open>test4.cpp\<close>\<close>

definition test4_g :: "stmt list" where
  "test4_g = print_tid @ [call (Sleep 1)] @ print_tid @ [call (Terminate 1)]"

definition test4_f :: "stmt list" where
  "test4_f = print_tid @ [call (Block 1), call (Block 2)] @ print_tid @ [call (Resume 1)]
     @ terminate_self"

definition test4_main :: "stmt list" where
  "test4_main = [call (Init 999999), call (Spawn addr_g), call (Spawn addr_f), Kill_SIGVTALRM]
     @ print_tid @ [call (Resume 2), Kill_SIGVTALRM] @ print_tid @ [Kill_SIGVTALRM,
     Put (\<lambda>l g. endl @ ''You should see: 1 2 0 2 0 1'' @ endl), call (Terminate 0)]"

subsection \<open>\<open>test6.cpp\<close>\<close>

definition test6_f :: "stmt list" where
  "test6_f = [Loop (\<lambda>l g. True) []]"

definition test6_main :: "stmt list" where
  "test6_main = [Put (\<lambda>l g. ''If this test doesn't stop running, you've failed the test'' @ endl),
     call (Init 999999), call (Spawn addr_f), Kill_SIGVTALRM,
     Put (\<lambda>l g. ''Test passed'' @ endl), call (Terminate 0)]"

subsection \<open>\<open>test7.cpp\<close>\<close>

definition test7_g :: "stmt list" where
  "test7_g = print_tid @ [call (Sleep 1)] @ print_tid @ [call (Terminate 1)]"

definition test7_f :: "stmt list" where
  "test7_f = print_tid @ terminate_self"

definition test7_main :: "stmt list" where
  "test7_main = [call (Init 999999), call (Spawn addr_g), Kill_SIGVTALRM] @ print_tid
     @ [call (Spawn addr_f), Kill_SIGVTALRM] @ print_tid @ [Kill_SIGVTALRM,
     Put (\<lambda>l g. endl @ ''You should see: 1 0 2 1 0 or 1 0 2 0 1'' @ endl), call (Terminate 0)]"

subsection \<open>\<open>DoNotRunThis.cpp\<close> and \<open>DoNotRunThis2.cpp\<close>\<close>

definition leak1_f :: "stmt list" where
  "leak1_f = terminate_self"

definition leak1_main :: "stmt list" where
  "leak1_main = [call (Init 999999), call (Spawn addr_f), Kill_SIGVTALRM, call (Terminate 0)]"

definition leak2_f :: "stmt list" where
  "leak2_f = [call (Terminate 0)]"

definition leak2_main :: "stmt list" where
  "leak2_main = [call (Init 999999), call (Spawn addr_f), Kill_SIGVTALRM]"

subsection \<open>\<open>main.cpp\<close>\<close>

definition child_thread :: "stmt list" where
  "child_thread =
     [Invoke ''tid'' (\<lambda>l g. Get_tid),
      Put (\<lambda>l g. ''Child: tid='' @ show_int (l ''tid'') @ endl),
      Assert (\<lambda>l g. l ''tid'' = 1),
      Invoke ''current_q'' (\<lambda>l g. Get_quantums (l ''tid'')),
      Invoke ''now'' (\<lambda>l g. Get_quantums (l ''tid'')),
      Loop (\<lambda>l g. l ''now'' = l ''current_q'') [Invoke ''now'' (\<lambda>l g. Get_quantums (l ''tid''))],
      Invoke ''q'' (\<lambda>l g. Get_quantums (l ''tid'')),
      Put (\<lambda>l g. ''Child: quantums='' @ show_int (l ''q'') @ endl),
      Assert (\<lambda>l g. l ''q'' > 0),
      Invoke [] (\<lambda>l g. Terminate (l ''tid''))]"

definition main_main :: "stmt list" where
  "main_main =
     [Invoke ''r'' (\<lambda>l g. Init 1000000), Assert (\<lambda>l g. l ''r'' = 0),
      Put (\<lambda>l g. ''Main: init OK'' @ endl),
      Invoke ''mainTid'' (\<lambda>l g. Get_tid),
      Put (\<lambda>l g. ''Main: tid='' @ show_int (l ''mainTid'') @ endl),
      Assert (\<lambda>l g. l ''mainTid'' = 0),
      Invoke ''childTid'' (\<lambda>l g. Spawn addr_f),
      Put (\<lambda>l g. ''Main: spawn returned '' @ show_int (l ''childTid'') @ endl),
      Assert (\<lambda>l g. l ''childTid'' = 1),
      Put (\<lambda>l g. ''Main: back after child termination'' @ endl),
      Invoke ''totalQ'' (\<lambda>l g. Get_total_quantums),
      Put (\<lambda>l g. ''Main: total quantums='' @ show_int (l ''totalQ'') @ endl),
      Assert (\<lambda>l g. l ''totalQ'' \<ge> 2),
      call (Terminate 0)]"

subsection \<open>\<open>test0_sanity.cpp\<close>\<close>

text \<open>The functions \<open>f\<close> and \<open>g\<close> differ in the letter they print.\<close>

definition sanity_f :: "stmt list" where
  "sanity_f =
     [Invoke ''tid'' (\<lambda>l g. Get_tid), Assign ''i'' (\<lambda>l g. 1),
      Loop (\<lambda>l g. True)
       [Invoke ''q'' (\<lambda>l g. Get_quantums (l ''tid'')),
        Branch (\<lambda>l g. l ''i'' = l ''q'')
         [Put (\<lambda>l g. ''f'' @ show_int (l ''tid'') @ '' Quanta:'' @ show_int (l ''i'') @ endl),
          Branch (\<lambda>l g. l ''i'' = 5)
           [Put (\<lambda>l g. ''f END'' @ endl), Invoke [] (\<lambda>l g. Terminate (l ''tid''))] [],
          Assign ''i'' (\<lambda>l g. l ''i'' + 1)] []]]"

definition sanity_g :: "stmt list" where
  "sanity_g =
     [Invoke ''tid'' (\<lambda>l g. Get_tid), Assign ''i'' (\<lambda>l g. 1),
      Loop (\<lambda>l g. True)
       [Invoke ''q'' (\<lambda>l g. Get_quantums (l ''tid'')),
        Branch (\<lambda>l g. l ''i'' = l ''q'')
         [Put (\<lambda>l g. ''g'' @ show_int (l ''tid'') @ '' Quanta:'' @ show_int (l ''i'') @ endl),
          Branch (\<lambda>l g. l ''i'' = 5)
           [Put (\<lambda>l g. ''g END'' @ endl), Invoke [] (\<lambda>l g. Terminate (l ''tid''))] [],
          Assign ''i'' (\<lambda>l g. l ''i'' + 1)] []]]"

definition sanity_main :: "stmt list" where
  "sanity_main =
     [call (Init 1000), Invoke ''tid'' (\<lambda>l g. Get_tid), Assign ''i'' (\<lambda>l g. 1),
      Put (\<lambda>l g. ''Thread:m Number:(0) '' @ show_int (l ''tid'') @ endl),
      Invoke ''n'' (\<lambda>l g. Get_total_quantums),
      Put (\<lambda>l g. ''Init Quantum num is: '' @ show_int (l ''n'') @ endl),
      Loop (\<lambda>l g. True)
       [Invoke ''q'' (\<lambda>l g. Get_quantums (l ''tid'')),
        Branch (\<lambda>l g. l ''i'' = l ''q'')
         [Put (\<lambda>l g. ''m'' @ show_int (l ''tid'') @ '' Quanta:'' @ show_int (l ''i'') @ endl),
          Branch (\<lambda>l g. l ''i'' = 3)
           [Invoke ''n'' (\<lambda>l g. Spawn addr_f),
            Put (\<lambda>l g. ''m spawns f at (1) '' @ show_int (l ''n'') @ endl),
            Invoke ''n'' (\<lambda>l g. Spawn addr_g),
            Put (\<lambda>l g. ''m spawns g at (2) '' @ show_int (l ''n'') @ endl)] [],
          Branch (\<lambda>l g. l ''i'' = 10)
           [Invoke ''n'' (\<lambda>l g. Get_total_quantums),
            Put (\<lambda>l g. ''Total Quantums: '' @ show_int (l ''n'') @ endl),
            Invoke [] (\<lambda>l g. Terminate (l ''tid''))] [],
          Assign ''i'' (\<lambda>l g. l ''i'' + 1)] []]]"

subsection \<open>\<open>test2_two_thread.cpp\<close>\<close>

definition two_globals :: vars where
  "two_globals = no_vars(''quantumR'' := 1000, ''currId'' := -1, ''maxRounds'' := 3, ''n'' := 1)"

definition two_f :: "stmt list" where
  "two_f =
     [Invoke ''id'' (\<lambda>l g. Get_tid), Assign ''rounds'' (\<lambda>l g. -1),
      Loop (\<lambda>l g. l ''rounds'' < g ''maxRounds'')
       [Branch (\<lambda>l g. g ''currId'' \<noteq> l ''id'')
         [Assign_global ''currId'' (\<lambda>l g. l ''id''),
          Put (\<lambda>l g. ''***'' @ show_int (l ''id'') @ ''***'' @ endl),
          Assign ''rounds'' (\<lambda>l g. l ''rounds'' + 1)] []],
      Invoke [] (\<lambda>l g. Terminate (l ''id''))]"

definition two_main :: "stmt list" where
  "two_main =
     [Put (\<lambda>l g. ''test2:'' @ endl @ ''--------------'' @ endl),
      Invoke [] (\<lambda>l g. Init (g ''quantumR'')),
      Invoke ''tid'' (\<lambda>l g. Spawn addr_f),
      Branch (\<lambda>l g. l ''tid'' = -1)
        [Put (\<lambda>l g. ''unjustified failrure to spawn'' @ endl)] []] @ two_f @ [call (Terminate 0)]"

subsection \<open>Running them\<close>

text \<open>The timer expires after every \<open>k\<close> steps, \<open>n\<close> times; after quanta of given lengths; or never, in
  \<open>n\<close> steps.\<close>

definition expires_every :: "nat \<Rightarrow> nat \<Rightarrow> bool list" where
  "expires_every k n = concat (replicate n (replicate k False @ [True]))"

definition expires_after :: "nat list \<Rightarrow> bool list" where
  "expires_after ks = concat (map (\<lambda>k. replicate k False @ [True]) ks)"

definition never_expires :: "nat \<Rightarrow> bool list" where
  "never_expires n = replicate n False"

lemma replicate_num: "replicate (numeral k) x = x # replicate (pred_numeral k) x"
  by (simp add: numeral_eq_Suc)

lemma show_digits [simp]:
  "show_int 0 = ''0''" "show_int 1 = ''1''" "show_int 2 = ''2''" "show_int 3 = ''3''"
  by code_simp+

lemmas program_simps =
  client_step_def exec_stmt_def go_on_def Let_def launch_def no_vars_def linked_def addr_f_def
  addr_g_def print_tid_def terminate_self_def x86_64.demangle_mangle tick_enabled_def
  uthread_init_def sched_init_def boot_def call_method_def setupSignalHandler_def replicate_num
  expires_every_def never_expires_def

lemma test1_run: "run_client (linked test1_f test1_g) (never_expires 40) (launch test1_main no_vars)
    = Over (Returned 1) ''1 2 0 1 ''"
  by (simp add: program_simps run_simps test1_f_def test1_g_def test1_main_def)

lemma test2_run: "run_client (linked test2_f test2_g) (never_expires 40) (launch test2_main no_vars)
    = Over (Stopped (Exit 0)) (''1 2 0 1 '' @ endl @ ''You should see: 1 2 0 1'' @ endl)"
  by (simp add: program_simps run_simps test2_f_def test2_g_def test2_main_def)

lemma test3_run: "run_client (linked test3_f test3_g) (never_expires 40) (launch test3_main no_vars)
    = Over (Stopped (Exit 0)) (''1 2 0 '' @ endl @ ''You should see: 1 2 0'' @ endl)"
  by (simp add: program_simps run_simps test3_f_def test3_g_def test3_main_def)

lemma test4_run: "run_client (linked test4_f test4_g) (never_expires 40) (launch test4_main no_vars)
    = Over (Stopped (Exit 0)) (''1 2 0 2 0 1 '' @ endl @ ''You should see: 1 2 0 2 0 1'' @ endl)"
  by (simp add: program_simps run_simps test4_f_def test4_g_def test4_main_def)

lemma test6_run: "run_client (linked test6_f []) (expires_every 8 3) (launch test6_main no_vars)
    = Over (Stopped (Exit 0)) (''If this test doesn't stop running, you've failed the test'' @ endl
        @ ''Test passed'' @ endl)"
  by (simp add: program_simps run_simps test6_f_def test6_main_def)

lemma test7_run: "run_client (linked test7_f test7_g) (never_expires 40) (launch test7_main no_vars)
    = Over (Returned 1) ''1 0 1 2 ''"
  by (simp add: program_simps run_simps test7_f_def test7_g_def test7_main_def)

lemma leak_runs:
  "run_client (linked leak1_f []) (never_expires 40) (launch leak1_main no_vars)
    = Over (Stopped (Exit 0)) []"
  "run_client (linked leak2_f []) (never_expires 40) (launch leak2_main no_vars)
    = Over (Stopped (Exit 0)) []"
  by (simp_all add: program_simps run_simps leak1_f_def leak1_main_def leak2_f_def leak2_main_def)


lemma main_without_ticks:
  "run_client (linked child_thread []) (never_expires 40) (launch main_main no_vars)
    = Over (Assertion_failed 0) (''Main: init OK'' @ endl @ ''Main: tid=0'' @ endl
        @ ''Main: spawn returned 1'' @ endl @ ''Main: back after child termination'' @ endl
        @ ''Main: total quantums=1'' @ endl)"
  by (simp add: program_simps run_simps child_thread_def main_main_def)

lemma main_with_ticks:
  "run_client (linked child_thread []) (expires_every 8 6) (launch main_main no_vars)
    = Over (Stopped (Exit 0)) (''Main: init OK'' @ endl @ ''Main: tid=0'' @ endl
        @ ''Main: spawn returned 1'' @ endl @ ''Child: tid=1'' @ endl
        @ ''Main: back after child termination'' @ endl
        @ ''Main: total quantums=3'' @ endl)"
  by (simp add: program_simps run_simps child_thread_def main_main_def)

lemma two_thread_run:
  "run_client (linked two_f []) (expires_every 11 20) (launch two_main two_globals)
    = Over (Stopped (Exit 0)) (''test2:'' @ endl @ ''--------------'' @ endl
        @ ''***0***'' @ endl @ ''***1***'' @ endl @ ''***0***'' @ endl @ ''***1***'' @ endl
        @ ''***0***'' @ endl @ ''***1***'' @ endl @ ''***0***'' @ endl)"
  by (simp add: program_simps run_simps two_f_def two_main_def two_globals_def)

end
