(* ===== verification/Drivers.thy ===== *)
theory Drivers
  imports Clients
begin

section \<open>The two test drivers\<close>

text \<open>
  \<open>TomTests/test5.cpp\<close> and \<open>test8.cpp\<close> compile one of the \<open>DoNotRunThis\<close> programs with an address
  sanitizer, run it and report.  The shell is a parameter: \<open>sys\<close> gives the value \<open>system\<close> returns
  for a command, a wait status, in which a command that exits with \<open>k\<close> is \<open>256 k\<close>.  \<open>n\<close> is the
  variable the user's answer is read into.
\<close>

record driver =
  commands :: "string list"
  says :: string
  exit_status :: int

text \<open>The value of \<open>main\<close> becomes an exit status of eight bits.\<close>

definition leave :: "int \<Rightarrow> driver \<Rightarrow> driver" where
  "leave r d = d\<lparr>exit_status := r mod 256\<rparr>"

definition shell :: "string \<Rightarrow> driver \<Rightarrow> driver" where
  "shell c d = d\<lparr>commands := commands d @ [c]\<rparr>"

definition say :: "string \<Rightarrow> driver \<Rightarrow> driver" where
  "say str d = d\<lparr>says := says d @ str\<rparr>"

definition test5_command :: string where
  "test5_command = ''g++ -std=c++11 -fsanitize=address -fno-omit-frame-pointer -g uthreads.cpp DoNotRunThis.cpp -o test_asan''"

definition test8_command :: string where
  "test8_command = ''g++ -std=c++11 -fsanitize=address '' @
     ''-fno-omit-frame-pointer -g uthreads.cpp DoNotRunThis2'' @ ''.cpp -o '' @ ''test_asan''"

definition run_command :: string where
  "run_command = ''ASAN_OPTIONS=detect_stack_use_after_return=true > results 2>&1 ./test_asan''"

definition cannot_compile :: string where
  "cannot_compile = ''Failed to run test (it doesn't mean you failed the test)'' @ endl"

definition test_failed :: string where
  "test_failed = ''Test failed.'' @ endl @ ''Try increasing STACK_SIZE to 100000. if it still '' @
     ''fails, you most likely accessed an invalid memory address or '' @
     ''there was a memory leak. hint: check ASAN_OPTIONS'' @ endl"

text \<open>The part the two files share, word for word, after the compiler command.\<close>

definition run_and_report :: "(string \<Rightarrow> int) \<Rightarrow> int \<Rightarrow> driver \<Rightarrow> driver" where
  "run_and_report sys n d = (let
     d1 = shell run_command d;
     result = sys run_command;
     d2 = (if result \<noteq> 0
       then (let d' = say (''To see full results, enter 1:'' @ endl) (say test_failed d1)
             in if n = 1 then shell ''cat results'' d' else d')
       else say (''Test passed'' @ endl) d1)
     in leave result (shell ''rm -f results test_asan'' d2))"

definition driver_main :: "string \<Rightarrow> (string \<Rightarrow> int) \<Rightarrow> int \<Rightarrow> driver" where
  "driver_main command sys n = (let
     d = shell command \<lparr>commands = [], says = [], exit_status = 0\<rparr>
     in if sys command \<noteq> 0 then leave 1 (say cannot_compile d) else run_and_report sys n d)"

definition test5_main :: "(string \<Rightarrow> int) \<Rightarrow> int \<Rightarrow> driver" where
  "test5_main = driver_main test5_command"

definition test8_main :: "(string \<Rightarrow> int) \<Rightarrow> int \<Rightarrow> driver" where
  "test8_main = driver_main test8_command"

subsection \<open>What they report\<close>

lemmas driver_defs = driver_main_def run_and_report_def leave_def shell_def say_def Let_def

text \<open>The last command removes the files the driver made, whenever there are any.\<close>

lemma driver_cleans_up:
  "sys c = 0 \<Longrightarrow> last (commands (driver_main c sys n)) = ''rm -f results test_asan''"
  by (simp add: driver_defs)

lemma driver_results:
  "sys c \<noteq> 0 \<Longrightarrow> driver_main c sys n
     = \<lparr>commands = [c], says = cannot_compile, exit_status = 1\<rparr>"
  "sys c = 0 \<Longrightarrow> sys run_command = 0 \<Longrightarrow> driver_main c sys n
     = \<lparr>commands = [c, run_command, ''rm -f results test_asan''], says = ''Test passed'' @ endl,
        exit_status = 0\<rparr>"
  "sys c = 0 \<Longrightarrow> sys run_command \<noteq> 0 \<Longrightarrow> driver_main c sys n
     = \<lparr>commands = [c, run_command] @ (if n = 1 then [''cat results''] else [])
          @ [''rm -f results test_asan''],
        says = test_failed @ ''To see full results, enter 1:'' @ endl,
        exit_status = sys run_command mod 256\<rparr>"
  by (simp_all add: driver_defs)

text \<open>
  A program that fails under the sanitizer exits with some status \<open>k\<close>, and the driver prints that
  the test failed; but it returns the wait status, of which only the low eight bits are kept, so
  that its own exit status is 0, as if the test had passed.
\<close>

lemma failed_test_exits_with_0:
  assumes "sys c = 0" "sys run_command = 256 * k" "k \<noteq> 0"
  shows "says (driver_main c sys n) = test_failed @ ''To see full results, enter 1:'' @ endl"
    and "exit_status (driver_main c sys n) = 0"
  using assms by (simp_all add: driver_results(3))

end
