(* ===== verification/Demos.thy ===== *)
theory Demos
  imports Drivers
begin

section \<open>The course's demonstration programs\<close>

text \<open>
  \<open>demo_jmp.c\<close>, from which the library takes its switching of stacks; \<open>demo_itimer.c\<close> and
  \<open>demo_singInt_handler.c\<close>, from which it takes timer and handler.
\<close>

unbundle bit_operations_syntax

subsection \<open>\<open>demo_jmp.c\<close>\<close>

definition demo_translate_address :: "address \<Rightarrow> address \<Rightarrow> address" where
  "demo_translate_address gd addr = word_rotl 17 (addr XOR gd)"

definition demo_translate_address_i386 :: "32 word \<Rightarrow> 32 word \<Rightarrow> 32 word" where
  "demo_translate_address_i386 gd addr = word_rotl 9 (addr XOR gd)"

definition DEMO_STACK_SIZE :: nat where
  "DEMO_STACK_SIZE = 4096"

text \<open>What \<open>env[tid]\<close> holds: zeros, a context from \<open>setup_thread\<close>, or one saved in \<open>yield\<close>.\<close>

datatype demo_env = Demo_zero | Demo_entry address address | Demo_yielded

text \<open>\<open>counter\<close> is the local \<open>i\<close> of the function that runs on the stack of a thread, \<open>func\<close> that function.\<close>

record demo =
  demo_envs :: "int \<Rightarrow> demo_env"
  current_thread :: int
  func :: "int \<Rightarrow> address"
  counter :: "int \<Rightarrow> int"
  stdout :: string

definition demo_boot :: demo where
  "demo_boot = \<lparr>demo_envs = (\<lambda>_. Demo_zero), current_thread = -1, func = (\<lambda>_. 0), counter = (\<lambda>_. 0),
     stdout = []\<rparr>"

definition out :: "string \<Rightarrow> demo \<Rightarrow> demo" where
  "out str d = d\<lparr>stdout := stdout d @ str @ endl\<rparr>"

definition setup_thread :: "address \<Rightarrow> int \<Rightarrow> address \<Rightarrow> address \<Rightarrow> demo \<Rightarrow> demo" where
  "setup_thread g tid stk entry_point d = (let
     sp = stk + of_nat DEMO_STACK_SIZE - of_nat sizeof_address_t; pc = entry_point
     in d\<lparr>demo_envs := (demo_envs d)(tid :=
          Demo_entry (demo_translate_address g sp) (demo_translate_address g pc))\<rparr>)"

text \<open>
  The addresses of the two functions and stacks are the linker's choice; the functions differ.
\<close>

record demo_image =
  thread0 :: address
  thread1 :: address
  stack0 :: address
  stack1 :: address

definition demo_setup :: "address \<Rightarrow> demo_image \<Rightarrow> demo \<Rightarrow> demo" where
  "demo_setup g im d = setup_thread g 1 (stack1 im) (thread1 im)
     (setup_thread g 0 (stack0 im) (thread0 im) d)"

text \<open>
  \<open>siglongjmp(env[tid], 1)\<close>: a fresh context starts its function, one saved in \<open>yield\<close> returns
  from \<open>sigsetjmp\<close> a second time, with 1, and then from \<open>yield\<close>.
\<close>

definition jump_to_thread :: "address \<Rightarrow> int \<Rightarrow> demo \<Rightarrow> demo option" where
  "jump_to_thread g tid d = (let d' = d\<lparr>current_thread := tid\<rparr> in case demo_envs d tid of
     Demo_zero \<Rightarrow> None
   | Demo_entry sp pc \<Rightarrow> Some (d'\<lparr>func := (func d)(tid := restore_address g pc),
                                 counter := (counter d)(tid := 0)\<rparr>)
   | Demo_yielded \<Rightarrow> Some (out (''yield: ret_val='' @ show_int 1) d'))"

definition yield :: "address \<Rightarrow> demo \<Rightarrow> demo option" where
  "yield g d = jump_to_thread g (1 - current_thread d)
     (out (''yield: ret_val='' @ show_int 0)
       (d\<lparr>demo_envs := (demo_envs d)(current_thread d := Demo_yielded)\<rparr>))"

text \<open>One iteration of the loop of \<open>thread0\<close> or \<open>thread1\<close>; \<open>None\<close> is undefined behaviour.\<close>

definition loop_body :: "address \<Rightarrow> string \<Rightarrow> int \<Rightarrow> demo \<Rightarrow> demo option" where
  "loop_body g name m d = (case add_int (counter d (current_thread d)) 1 of
     None \<Rightarrow> None
   | Some n \<Rightarrow> let d' = out (''in '' @ name @ '' ('' @ show_int n @ '')'')
                       (d\<lparr>counter := (counter d)(current_thread d := n)\<rparr>)
       in if n smod m = 0 then yield g (out (name @ '': yielding'') d') else Some d')"

definition thread0_iteration :: "address \<Rightarrow> demo \<Rightarrow> demo option" where
  "thread0_iteration g = loop_body g ''thread0'' 3"

definition thread1_iteration :: "address \<Rightarrow> demo \<Rightarrow> demo option" where
  "thread1_iteration g = loop_body g ''thread1'' 5"

definition demo_step :: "address \<Rightarrow> demo_image \<Rightarrow> demo \<Rightarrow> demo option" where
  "demo_step g im d = (let f = func d (current_thread d) in
     if f = thread0 im then thread0_iteration g d
     else if f = thread1 im then thread1_iteration g d
     else None)"

definition demo_main :: "address \<Rightarrow> demo_image \<Rightarrow> demo option" where
  "demo_main g im = jump_to_thread g 0 (demo_setup g im demo_boot)"

text \<open>\<open>n\<close> iterations, in whichever thread the processor is.\<close>

fun demo_run :: "address \<Rightarrow> demo_image \<Rightarrow> nat \<Rightarrow> demo option" where
  "demo_run g im 0 = demo_main g im"
| "demo_run g im (Suc n) = (case demo_run g im n of None \<Rightarrow> None | Some d \<Rightarrow> demo_step g im d)"

lemma demo_translate_eq: "demo_translate_address = translate_address"
  "demo_translate_address_i386 = translate_address_i386"
  by (simp_all add: fun_eq_iff demo_translate_address_def translate_address_def
      demo_translate_address_i386_def translate_address_i386_def)

text \<open>After \<open>8 k + r\<close> iterations.\<close>

definition demo_at :: "address \<Rightarrow> demo_image \<Rightarrow> int \<Rightarrow> int \<Rightarrow> demo \<Rightarrow> bool" where
  "demo_at g im k r d \<longleftrightarrow> (if r < 3
     then current_thread d = 0 \<and> counter d 0 = 3 * k + r \<and> func d 0 = thread0 im
       \<and> (if k = 0 then (\<exists>sp. demo_envs d 1 = Demo_entry sp (translate_address g (thread1 im)))
          else demo_envs d 1 = Demo_yielded \<and> counter d 1 = 5 * k \<and> func d 1 = thread1 im)
     else current_thread d = 1 \<and> counter d 1 = 5 * k + (r - 3) \<and> func d 1 = thread1 im
       \<and> demo_envs d 0 = Demo_yielded \<and> counter d 0 = 3 * k + 3 \<and> func d 0 = thread0 im)"

lemma smod_nonneg: "0 \<le> n \<Longrightarrow> 0 < m \<Longrightarrow> n smod m = (n :: int) mod m"
  by (simp add: signed_modulo_int_def sgn_if)

lemma demo_step_at:
  assumes at: "demo_at g im k r d" and k: "0 \<le> k" "5 * k + 5 \<le> INT_MAX" and r: "0 \<le> r" "r < 8"
    and ne: "thread0 im \<noteq> thread1 im"
  shows "\<exists>d'. demo_step g im d = Some d'
    \<and> (if r = 7 then demo_at g im (k + 1) 0 d' else demo_at g im k (r + 1) d')"
proof -
  note defs = demo_step_def thread0_iteration_def thread1_iteration_def loop_body_def Let_def out_def
    yield_def jump_to_thread_def x86_64.demangle_mangle
  consider "r < 2" | "r = 2" | "3 \<le> r" "r < 7" | "r = 7" using r by linarith
  then show ?thesis
  proof cases
    case 1
    have "int_ok (3 * k + r + 1)" using k r 1 by (intro int_okI) simp_all
    moreover have "(3 * k + r + 1) smod 3 \<noteq> 0" using k r 1 by (subst smod_nonneg) presburger+
    ultimately show ?thesis using at 1 by (simp add: demo_at_def defs)
  next
    case 2
    have "int_ok (3 * k + 2 + 1)" using k by (intro int_okI) simp_all
    moreover have "(3 * k + 2 + 1) smod 3 = 0" using k by (subst smod_nonneg) presburger+
    ultimately show ?thesis
      using at 2 ne by (cases "k = 0") (auto simp: demo_at_def defs)
  next
    case 3
    have "int_ok (5 * k + (r - 3) + 1)" using k r 3 by (intro int_okI) simp_all
    moreover have "(5 * k + (r - 3) + 1) smod 5 \<noteq> 0" using k 3 by (subst smod_nonneg) presburger+
    ultimately show ?thesis using at 3 ne by (simp add: demo_at_def defs)
  next
    case 4
    have "int_ok (5 * k + 4 + 1)" using k by (intro int_okI) simp_all
    moreover have "(5 * k + 4 + 1) smod 5 = 0" using k by (subst smod_nonneg) presburger+
    ultimately show ?thesis using at 4 ne k by (auto simp: demo_at_def defs)
  qed
qed

lemma demo_main_at: "thread0 im \<noteq> thread1 im \<Longrightarrow> \<exists>d. demo_main g im = Some d \<and> demo_at g im 0 0 d"
  by (simp add: demo_main_def jump_to_thread_def demo_setup_def setup_thread_def demo_boot_def Let_def
      demo_at_def demo_translate_eq x86_64.demangle_mangle)

lemma next_eight:
  "(x + 1) div 8 = (if x mod 8 = 7 then x div 8 + 1 else x div (8 :: int))"
  "(x + 1) mod 8 = (if x mod 8 = 7 then 0 else x mod 8 + 1)"
proof -
  define q r where "q = x div 8" and "r = x mod 8"
  have x: "x = 8 * q + r" unfolding q_def r_def by (rule mult_div_mod_eq [symmetric])
  have e: "x + 1 = (if r = 7 then 8 * (q + 1) + 0 else 8 * q + (r + 1))" "0 \<le> r" "r < 8"
    using x by (simp_all add: r_def)
  then show "(x + 1) div 8 = (if x mod 8 = 7 then x div 8 + 1 else x div 8)"
    unfolding q_def [symmetric] r_def [symmetric]
    by (cases "r = 7") (auto intro!: int_div_pos_eq)
  from e show "(x + 1) mod 8 = (if x mod 8 = 7 then 0 else x mod 8 + 1)"
    unfolding q_def [symmetric] r_def [symmetric]
    by (cases "r = 7") (auto intro!: int_mod_pos_eq)
qed

lemma demo_run_at:
  assumes "thread0 im \<noteq> thread1 im" "5 * (int n div 8) + 5 \<le> INT_MAX"
  shows "\<exists>d. demo_run g im n = Some d \<and> demo_at g im (int n div 8) (int n mod 8) d"
  using assms(2)
proof (induction n)
  case 0
  then show ?case using demo_main_at [OF assms(1)] by simp
next
  case (Suc n)
  have "int n div 8 \<le> int (Suc n) div 8" by (simp add: zdiv_mono1)
  with Suc.prems have le: "5 * (int n div 8) + 5 \<le> INT_MAX" by linarith
  obtain d where d: "demo_run g im n = Some d" "demo_at g im (int n div 8) (int n mod 8) d"
    using Suc.IH [OF le] by auto
  have nn: "0 \<le> int n div 8" by presburger
  have r: "0 \<le> int n mod 8" "int n mod 8 < 8" by presburger+
  obtain d' where d': "demo_step g im d = Some d'"
    "if int n mod 8 = 7 then demo_at g im (int n div 8 + 1) 0 d'
     else demo_at g im (int n div 8) (int n mod 8 + 1) d'"
    using demo_step_at [OF d(2) nn le r assms(1)] by blast
  note next_eight [of "int n"]
  then show ?case using d(1) d' by (cases "int n mod 8 = 7") (simp_all add: add.commute)
qed



subsection \<open>\<open>demo_itimer.c\<close>\<close>

text \<open>
  The endless loop of \<open>main\<close> has three points at which the handler can interrupt it: before the
  test of \<open>gotit\<close>, before the message, and before the flag is cleared.  \<open>failing\<close> lists the
  calls that fail; the program prints a message and goes on.  Without a handler SIGVTALRM
  ends the process.
\<close>

datatype itimer_point = Before_test | Before_print | Before_clear

record itimer_demo =
  gotit :: int
  point :: itimer_point
  installed :: bool
  armed :: "itimerval option"
  lines :: "string list"

definition timer_handler :: "itimer_demo \<Rightarrow> itimer_demo" where
  "timer_handler d = d\<lparr>gotit := 1, lines := lines d @ [''Timer expired'']\<rparr>"

definition demo_timer :: itimerval where
  "demo_timer = \<lparr>it_interval = \<lparr>tv_sec = 3, tv_usec = 0\<rparr>, it_value = \<lparr>tv_sec = 1, tv_usec = 0\<rparr>\<rparr>"

definition itimer_main :: "os_call set \<Rightarrow> itimer_demo" where
  "itimer_main fl = (let
     a = \<lparr>gotit = 0, point = Before_test, installed = False, armed = None, lines = []\<rparr>;
     b = (if Sigaction \<in> fl then a\<lparr>lines := lines a @ [''sigaction error.'']\<rparr>
          else a\<lparr>installed := True\<rparr>)
     in if Setitimer \<in> fl then b\<lparr>lines := lines b @ [''setitimer error.'']\<rparr>
        else b\<lparr>armed := Some demo_timer\<rparr>)"

definition itimer_loop :: "itimer_demo \<Rightarrow> itimer_demo" where
  "itimer_loop d = (case point d of
     Before_test \<Rightarrow> if gotit d \<noteq> 0 then d\<lparr>point := Before_print\<rparr> else d
   | Before_print \<Rightarrow> d\<lparr>lines := lines d @ [''Got it!''], point := Before_clear\<rparr>
   | Before_clear \<Rightarrow> d\<lparr>gotit := 0, point := Before_test\<rparr>)"

text \<open>A run: \<open>True\<close> is an expiration, \<open>False\<close> a step of the loop; \<open>None\<close> when the signal kills.\<close>

fun itimer_run :: "bool list \<Rightarrow> itimer_demo \<Rightarrow> itimer_demo option" where
  "itimer_run [] d = Some d"
| "itimer_run (e # es) d = (if e then if installed d then itimer_run es (timer_handler d) else None
                            else itimer_run es (itimer_loop d))"

definition said :: "string \<Rightarrow> itimer_demo \<Rightarrow> nat" where
  "said str d = length (filter (\<lambda>l. l = str) (lines d))"

text \<open>The loop owes at most one message per expiration it has not reported.\<close>

definition itimer_ok :: "itimer_demo \<Rightarrow> bool" where
  "itimer_ok d \<longleftrightarrow> said ''Got it!'' d
     + (if gotit d \<noteq> 0 \<and> point d \<noteq> Before_clear then 1 else 0) \<le> said ''Timer expired'' d
     \<and> (point d = Before_print \<longrightarrow> gotit d \<noteq> 0) \<and> installed d"

lemma itimer_ok_step:
  assumes "itimer_ok d"
  shows "itimer_ok (timer_handler d)" "itimer_ok (itimer_loop d)"
  using assms
  by (auto simp: itimer_ok_def timer_handler_def itimer_loop_def said_def split: itimer_point.splits)

lemma itimer_run_ok: "itimer_ok d \<Longrightarrow> \<exists>d'. itimer_run es d = Some d' \<and> itimer_ok d'"
proof (induction es arbitrary: d)
  case (Cons e es)
  have "installed d" using Cons.prems by (simp add: itimer_ok_def)
  then show ?case using Cons.IH itimer_ok_step [OF Cons.prems] by simp
qed simp

text \<open>The program never reports more expirations than there were, however the handler
  interleaves with the loop; an expiration it tests for is reported two steps later; and one
  that arrives between the message and the clearing of the flag is lost.\<close>

lemma itimer_reports:
  assumes "Sigaction \<notin> fl"
  shows "(\<exists>d. itimer_run es (itimer_main fl) = Some d
      \<and> said ''Got it!'' d \<le> said ''Timer expired'' d)"
proof -
  have "itimer_ok (itimer_main fl)"
    using assms by (simp add: itimer_ok_def itimer_main_def Let_def said_def)
  from itimer_run_ok [OF this, of es] obtain d where
    "itimer_run es (itimer_main fl) = Some d" "itimer_ok d" by blast
  then show ?thesis by (auto simp: itimer_ok_def)
qed

lemma itimer_lost:
  "\<exists>d. itimer_run [True, False, False, True, False, False, False, False] (itimer_main {}) = Some d
     \<and> said ''Timer expired'' d = 2 \<and> said ''Got it!'' d = 1 \<and> gotit d = 0"
  by (simp add: itimer_main_def Let_def timer_handler_def itimer_loop_def said_def)

subsection \<open>\<open>demo_singInt_handler.c\<close>\<close>

text \<open>
  The structure \<open>sa\<close> is not initialised, so its flags are whatever the stack held: \<open>resethand\<close> says
  whether \<open>SA_RESETHAND\<close> is among them, and then the handler is removed when it is called.
\<close>

record sigint_demo =
  handling :: bool
  resethand :: bool
  said_lines :: "string list"

definition sigint_main :: "os_call set \<Rightarrow> bool \<Rightarrow> sigint_demo" where
  "sigint_main fl garbage = (if Sigaction \<in> fl
     then \<lparr>handling = False, resethand = False, said_lines = [''sigaction error.'']\<rparr>
     else \<lparr>handling = True, resethand = garbage, said_lines = []\<rparr>)"

definition catch_int :: "sigint_demo \<Rightarrow> sigint_demo" where
  "catch_int d = d\<lparr>said_lines := said_lines d @ ['' Don't do that!''], handling := \<not> resethand d\<rparr>"

text \<open>\<open>n\<close> times SIGINT while the program waits in \<open>pause\<close>; \<open>None\<close> when the process is killed.\<close>

fun sigint_run :: "nat \<Rightarrow> sigint_demo \<Rightarrow> sigint_demo option" where
  "sigint_run 0 d = Some d"
| "sigint_run (Suc n) d = (if handling d then sigint_run n (catch_int d) else None)"

lemma sigint_run_plain: "handling d \<Longrightarrow> \<not> resethand d \<Longrightarrow>
    sigint_run n d = Some (d\<lparr>said_lines := said_lines d @ replicate n '' Don't do that!''\<rparr>)"
  by (induction n arbitrary: d) (simp_all add: catch_int_def replicate_append_same)

text \<open>C40: the two signal demonstrations.  \<open>demo_itimer.c\<close> never reports more expirations than
  there were, however its handler interleaves with its loop, but can report fewer.
  \<open>demo_singInt_handler.c\<close> survives any number of interrupts, answering each, when the flags in
  its uninitialised \<open>struct sigaction\<close> happen not to contain \<open>SA_RESETHAND\<close>; when they do, the
  second interrupt kills it.\<close>

theorem signal_demos:
  "(\<forall>fl es. Sigaction \<notin> fl \<longrightarrow> (\<exists>d. itimer_run es (itimer_main fl) = Some d
      \<and> said ''Got it!'' d \<le> said ''Timer expired'' d))
   \<and> (\<exists>es d. itimer_run es (itimer_main {}) = Some d
      \<and> said ''Got it!'' d < said ''Timer expired'' d \<and> gotit d = 0)
   \<and> (\<forall>n. sigint_run n (sigint_main {} False) = Some \<lparr>handling = True, resethand = False,
        said_lines = replicate n '' Don't do that!''\<rparr>)
   \<and> (\<forall>n. sigint_run (Suc (Suc n)) (sigint_main {} True) = None)"
proof -
  have "\<exists>es d. itimer_run es (itimer_main {}) = Some d
      \<and> said ''Got it!'' d < said ''Timer expired'' d \<and> gotit d = 0"
    using itimer_lost by (metis one_less_numeral_iff semiring_norm(76))
  then show ?thesis
    using itimer_reports by (simp add: sigint_run_plain sigint_main_def catch_int_def)
qed

theorem signal_demos_witness:
  "\<exists>d. itimer_run [True, False, False, False] (itimer_main {}) = Some d
     \<and> said ''Got it!'' d \<le> said ''Timer expired'' d"
  using signal_demos by blast

end
