(* ===== verification/Examples.thy ===== *)
theory Examples
  imports Clients
begin

section \<open>Runs of the example programs\<close>

text \<open>
  \<open>test0_sanity.cpp\<close> under a timer that expires after given numbers of steps, and the results for
  the example programs outside \<open>TomTests\<close>.
\<close>

definition sanity_output :: string where
  "sanity_output = ''Thread:m Number:(0) 0'' @ endl @ ''Init Quantum num is: 1'' @ endl
     @ ''m0 Quanta:1'' @ endl @ ''m0 Quanta:2'' @ endl @ ''m0 Quanta:3'' @ endl
     @ ''m spawns f at (1) 1'' @ endl @ ''m spawns g at (2) 2'' @ endl
     @ ''f1 Quanta:1'' @ endl @ ''g2 Quanta:1'' @ endl"

lemma sanity_run:
  "\<exists>c. run_client (linked sanity_f sanity_g) (expires_after [14, 10, 14, 11, 11])
      (launch sanity_main no_vars) = Running c \<and> printed c = sanity_output
    \<and> currentTid (process c) = 0 \<and> totalQuantums (process c) = 6"
  by (simp add: program_simps run_simps expires_after_def sanity_output_def sanity_f_def
      sanity_g_def sanity_main_def)

text \<open>A tick between the assignment to \<open>currId\<close> and the message of \<open>test2_two_thread.cpp\<close>.\<close>

lemma two_thread_race:
  "\<exists>c. run_client (linked two_f []) (expires_after [9, 7, 2]) (launch two_main two_globals) = Running c
    \<and> printed c = ''test2:'' @ endl @ ''--------------'' @ endl @ ''***1***'' @ endl @ ''***0***'' @ endl"
  by (simp add: program_simps run_simps expires_after_def two_f_def two_main_def two_globals_def)


end
