(* ===== verification/Fairness.thy ===== *)
theory Fairness
  imports Accounting
begin

section \<open>Bounded waiting, and the range of the numbers\<close>

text \<open>
  Two more invariants by the induction of \<open>safe_system\<close>: a thread in the ready queue comes closer
  to the processor with every quantum, whatever the running threads call; and every number the
  scheduler keeps in an \<open>int\<close> fits.
\<close>

subsection \<open>Bounded waiting\<close>

text \<open>The number of entries before the first entry of \<open>t\<close>.\<close>

definition ahead :: "int \<Rightarrow> int list \<Rightarrow> nat" where
  "ahead t q = length (takeWhile (\<lambda>x. x \<noteq> t) q)"

lemma ahead_Cons [simp]: "ahead t (x # q) = (if x = t then 0 else Suc (ahead t q))"
  by (simp add: ahead_def)

lemma ahead_append [simp]: "t \<in> set q \<Longrightarrow> ahead t (q @ r) = ahead t q"
  by (simp add: ahead_def takeWhile_append1 [of t])

lemma ahead_filter: "ahead t (filter (\<lambda>x. x \<noteq> u) q) \<le> ahead t q" if "t \<noteq> u"
  using that by (induction q) auto

text \<open>The steps through which \<open>t\<close> stays in the queue and is not chosen.\<close>

definition passed_over :: "int \<Rightarrow> machine \<Rightarrow> event \<Rightarrow> machine \<Rightarrow> bool" where
  "passed_over t s e u \<longleftrightarrow> lib_step s e u \<and> currentTid u \<noteq> t
     \<and> (case e of Called c _ \<Rightarrow> c \<noteq> Terminate t \<and> c \<noteq> Block t | _ \<Rightarrow> True)"

text \<open>\<open>t\<close> waits, and is served when at most \<open>n\<close> quanta have been started.\<close>

definition waits :: "int \<Rightarrow> int \<Rightarrow> machine \<Rightarrow> bool" where
  "waits n t s \<longleftrightarrow> sched_inv s \<and> t \<in> set (readyQueue s)
     \<and> totalQuantums s + int (ahead t (readyQueue s)) \<le> n"

lemma waits_stays:
  assumes w: "t \<in> set (readyQueue s)" and c: "c \<noteq> Terminate t" "c \<noteq> Block t"
  shows "t \<in> set (readyQueue (snd (stays al c s)))"
    and "ahead t (readyQueue (snd (stays al c s))) \<le> ahead t (readyQueue s)"
  using w c ahead_filter
  by (cases c; auto simp: stays_def complain_def blocked_state_def resumed_state_def
      split: option.splits)+

lemma queue_advances:
  assumes "t \<in> set q" "hd (q @ r) \<noteq> t"
  shows "t \<in> set (tl (q @ r))" "Suc (ahead t (tl (q @ r))) = ahead t q"
  using assms by (cases q; auto)+

lemma waits_step:
  assumes w: "waits n t s" and step: "passed_over t s e u"
  shows "waits n t u"
proof -
  have inv: "sched_inv s" and q: "t \<in> set (readyQueue s)"
    and n: "totalQuantums s + int (ahead t (readyQueue s)) \<le> n"
    using w by (simp_all add: waits_def)
  have st: "lib_step s e u" and nt: "currentTid u \<noteq> t"
    and c: "case e of Called c _ \<Rightarrow> c \<noteq> Terminate t \<and> c \<noteq> Block t | _ \<Rightarrow> True"
    using step by (simp_all add: passed_over_def)
  have "t \<in> set (readyQueue u) \<and> totalQuantums u + int (ahead t (readyQueue u)) \<le> n"
    using st inv
  proof (cases rule: step_cases)
    case (stay al d)
    then show ?thesis
      using waits_stays [OF q, of d al] c n stays_total [of al d s] by auto
  next
    case (depart d site v k)
    obtain r where r: "next_queue v = readyQueue s @ r"
      using depart_frame(4) [OF depart(2)] by (cases "requeues v") (auto simp: next_queue_def)
    have "readyQueue s \<noteq> []" using q by auto
    then have "hd (readyQueue s @ r) \<noteq> t"
      using nt depart(5) r by (simp add: next_tid_def)
    from queue_advances [OF q this] show ?thesis
      using n r depart(5) depart_frame(3) [OF depart(2)] by simp
  next
    case (tick k)
    obtain r where r: "tick_queue s = readyQueue s @ r" by (simp add: tick_queue_def)
    note tn = tick_next [OF inv tick(1,2)]
    have "readyQueue s \<noteq> []" using q by auto
    then have "hd (readyQueue s @ r) \<noteq> t"
      using nt tick(4) tn(1) r by simp
    from queue_advances [OF q this] show ?thesis
      using n r tick(4) tn(2,3) by simp
  next
    case (rehash ts sl)
    then show ?thesis using q n by simp
  qed
  then show ?thesis using lib_step_inv [OF inv st] by (simp add: waits_def)
qed

interpretation waiting: safe_system "waits n t" "passed_over t" "waits n t" for n t
  by unfold_locales (auto intro: waits_step)

text \<open>C10: bounded waiting.  A thread with \<open>i\<close> entries before it in the ready queue is passed over at
  most \<open>i\<close> times: through every sequence of calls, by whichever threads, ticks and rehashings, as
  long as nobody terminates or blocks it, it stays in the queue, and at most \<open>i\<close> quanta start
  before its own.  Spawning, resuming, waking, blocking and terminating other threads cannot
  delay it.\<close>

theorem bounded_waiting:
  assumes "reachable s" "t \<in> set (readyQueue s)" "reach (\<lambda>x. x = s) (passed_over t) u"
  shows "t \<in> set (readyQueue u)
    \<and> totalQuantums u + int (ahead t (readyQueue u))
        \<le> totalQuantums s + int (ahead t (readyQueue s))"
proof -
  let ?n = "totalQuantums s + int (ahead t (readyQueue s))"
  have "waits ?n t s" using reachable_inv [OF assms(1)] assms(2) by (simp add: waits_def)
  then have "waits ?n t u"
    using waiting.reach_inv reach_mono [OF assms(3), of "waits ?n t"] by blast
  then show ?thesis by (simp add: waits_def)
qed

theorem bounded_waiting_witness:
  "\<exists>k u. perform (memory 9) (Sleep 4) (after [Call (Spawn 77), Call (Spawn 88), Tick]) = Goes k u
     \<and> totalQuantums u + int (ahead 0 (readyQueue u)) \<le> 3"
proof -
  let ?s = "after [Call (Spawn 77), Call (Spawn 88), Tick]"
  have s: "alloc_ok (memory 9) ?s" "allowed ?s (Sleep 4)" "totalQuantums ?s < INT_MAX"
    "0 \<in> set (readyQueue ?s)" "totalQuantums ?s + int (ahead 0 (readyQueue ?s)) = 3"
    by (simp_all add: run_simps state_simps)
  obtain k u where u: "perform (memory 9) (Sleep 4) ?s = Goes k u" "currentTid u \<noteq> 0"
    by (simp add: run_simps state_simps)
  have "passed_over 0 ?s (Called (Sleep 4) k) u"
    using lib_step.call [OF s(1-3) u(1)] u(2) by (simp add: passed_over_def)
  then have "reach (\<lambda>x. x = ?s) (passed_over 0) u"
    by (intro reach_step [OF reach_start]) simp_all
  with bounded_waiting [OF sample_running s(4)] u(1) s(5) show ?thesis by auto
qed

subsection \<open>The range of the numbers\<close>

definition deadlines_ok :: "machine \<Rightarrow> bool" where
  "deadlines_ok s \<longleftrightarrow> (\<forall>t d. um_find (sleepingThreads s) t = Some d \<longrightarrow> 0 \<le> d \<and> d \<le> INT_MAX)"

definition in_range :: "machine \<Rightarrow> bool" where
  "in_range s \<longleftrightarrow> sched_inv s \<and> totalQuantums s \<le> INT_MAX \<and> quantumUsecs s \<le> INT_MAX
     \<and> deadlines_ok s"

lemma stays_quantum_length: "quantumUsecs (snd (stays al c s)) = quantumUsecs s"
  by (cases c) (auto simp: stays_def complain_def blocked_state_def resumed_state_def
      split: option.splits)

lemma stays_deadlines: "owned s \<Longrightarrow> deadlines_ok s \<Longrightarrow> deadlines_ok (snd (stays al c s))"
  by (cases c) (auto simp: deadlines_ok_def stays_def complain_def blocked_state_def
      resumed_state_def removed_state_def split: option.splits if_splits)

lemma depart_deadlines:
  assumes "deadlines_ok s" "departs c s = Some (site, u)" "allowed s c" "1 \<le> totalQuantums s"
  shows "deadlines_ok u"
  using assms
  by (cases c) (auto simp: deadlines_ok_def departs_def self_blocked_def self_terminated_def
      put_to_sleep_def allowed_def split: if_splits)

lemma in_range_step:
  assumes r: "in_range s" and step: "lib_step s e u"
  shows "in_range u"
proof -
  have inv: "sched_inv s" and dl: "deadlines_ok s" using r by (simp_all add: in_range_def)
  note d = sched_invD [OF inv]
  have "totalQuantums u \<le> INT_MAX \<and> quantumUsecs u \<le> INT_MAX \<and> deadlines_ok u"
    using step inv
  proof (cases rule: step_cases)
    case (stay al c)
    then show ?thesis
      using r stays_total stays_quantum_length stays_deadlines [OF d(4) dl]
      by (simp add: in_range_def)
  next
    case (depart c site v k)
    then show ?thesis
      using r depart_frame [OF depart(2)] depart_deadlines [OF dl depart(2,1) d(9)]
        switchableD(2) [OF depart(3)] by (simp add: in_range_def deadlines_ok_def)
  next
    case (tick k)
    then show ?thesis
      using r tick_next(3) [OF inv tick(1,2)] still_asleep [OF d(4)]
      by (auto simp: in_range_def deadlines_ok_def after_tick_def)
  next
    case (rehash ts sl)
    then show ?thesis using r by (simp add: in_range_def deadlines_ok_def)
  qed
  then show ?thesis using lib_step_inv [OF inv step] by (simp add: in_range_def)
qed

lemma in_range_start: "lib_start s \<Longrightarrow> in_range s"
  using lib_start_inv [of s]
  by (auto simp: lib_start_def init_eval in_range_def deadlines_ok_def booted_def um_find_def
      INT_MAX_def)

interpretation range: safe_system lib_start lib_step in_range
  by unfold_locales (auto intro: in_range_start in_range_step)



end
