(* ===== verification/Pairs.thy ===== *)
theory Pairs
  imports Ticks
begin

section \<open>A library with one or two threads\<close>

text \<open>
  What ticks and a spawn do when only the main thread exists, or the main thread and one more,
  and nobody sleeps: the two threads alternate, each resuming from the context it was left in.
\<close>

definition quiet :: "machine \<Rightarrow> bool" where
  "quiet s \<longleftrightarrow> sched_inv s \<and> tick_enabled s \<and> sleepingThreads s = [] \<and> pendingDeletionTid s = -1"

text \<open>The main thread alone.\<close>

definition solo :: "address \<Rightarrow> machine \<Rightarrow> bool" where
  "solo obj s \<longleftrightarrow> quiet s \<and> threads s = [(0, obj)] \<and> currentTid s = 0 \<and> readyQueue s = []"

text \<open>Thread \<open>t\<close> runs and thread \<open>u\<close>, whose context is \<open>e\<close>, is ready.\<close>

definition duo :: "int \<Rightarrow> int \<Rightarrow> jmp_env \<Rightarrow> machine \<Rightarrow> bool" where
  "duo t u e s \<longleftrightarrow> quiet s \<and> tids s = {t, u} \<and> t \<noteq> u \<and> currentTid s = t \<and> readyQueue s = [u]
     \<and> (\<exists>th. table s u = Some th \<and> env th = e)"

lemma quiet_tick:
  assumes q: "quiet s" and max: "totalQuantums s < INT_MAX"
  shows "quiet (after_tick s)" "tids (after_tick s) = tids s" "threads (after_tick s) = threads s"
    "guard (after_tick s) = guard s" "totalQuantums (after_tick s) = totalQuantums s + 1"
    and "tick_queue s = readyQueue s @ (if tids s = {currentTid s} then [] else [currentTid s])"
    and "table s t = Some th \<Longrightarrow> table (after_tick s) t
       = Some (switch_thread (From_timer (sigmask s)) (before_tick_switch s) t th)"
    and "tick s = Goes (continues (next_context (From_timer (sigmask s)) (before_tick_switch s)))
       (after_tick s)"
proof -
  let ?b = "before_tick_switch s" and ?site = "From_timer (sigmask s)"
  have inv: "sched_inv s" and en: "tick_enabled s" using q by (simp_all add: quiet_def)
  note own = sched_invD(4) [OF inv]
  note tr = tick_ready [OF inv en max]
  have ob: "owned ?b" by (rule switchableD(3) [OF tr(1)])
  have w: "wakes s (sleepingThreads s) = []" using q by (simp add: quiet_def wakes_def due_def)
  have nr: "\<not> reaps ?site ?b" using q by (simp add: reaps_def quiet_def)
  have sl: "sleepingThreads (after_tick s) = []"
    using q by (simp add: after_tick_def quiet_def woken_def)
  have pd: "pendingDeletionTid (after_tick s) = -1"
    using q by (simp add: after_tick_def pending_switch_to quiet_def split: jmp_env.splits)
  show ev: "tick s = Goes (continues (next_context ?site ?b)) (after_tick s)"
    using tick_eval [OF inv max en] by (simp add: after_tick_def)
  show "quiet (after_tick s)"
    using tick_inv [OF inv max en ev] sl pd by (simp add: quiet_def)
  show "tids (after_tick s) = tids s"
    using tids_switch_to [OF ob] nr by (simp add: after_tick_def)
  show "threads (after_tick s) = threads s"
    using q by (simp add: after_tick_def switch_to_def landed_def reaped_def quiet_def split: jmp_env.splits)
  show "guard (after_tick s) = guard s" "totalQuantums (after_tick s) = totalQuantums s + 1"
    by (simp_all add: after_tick_def)
  show "tick_queue s = readyQueue s @ (if tids s = {currentTid s} then [] else [currentTid s])"
    by (simp add: tick_queue_def w)
  show "table (after_tick s) t = Some (switch_thread ?site ?b t th)" if "table s t = Some th"
    using that nr w by (simp add: after_tick_def table_switch_to [OF ob] before_tick_table [OF own])
qed

lemma solo_tick:
  assumes s: "solo obj s" and max: "totalQuantums s < INT_MAX"
  shows "solo obj (after_tick s)" "\<exists>b. tick s = Goes (Comes_back b) (after_tick s)"
proof -
  have q: "quiet s" and c: "currentTid s = 0" "readyQueue s = []" "threads s = [(0, obj)]"
    using s by (simp_all add: solo_def)
  note qt = quiet_tick [OF q max]
  have inv: "sched_inv s" and en: "tick_enabled s" using q by (simp_all add: quiet_def)
  have t: "tids s = {0}" using c(3) by (simp add: tids_def um_keys_def)
  have tq: "tick_queue s = []" using qt(6) c t by simp
  show "solo obj (after_tick s)"
    using qt(1,3) tick_next [OF inv en max] c tq by (simp add: solo_def)
  let ?b = "before_tick_switch s" and ?site = "From_timer (sigmask s)"
  note tr = tick_ready [OF inv en max]
  have n: "next_tid ?b = 0" using tr(3) tq c by (simp add: next_tid_def)
  obtain th where th: "table s 0 = Some th" using t owned_table [OF sched_invD(4) [OF inv], of 0] by auto
  have "wakes s (sleepingThreads s) = []" using q by (simp add: quiet_def wakes_def due_def)
  then have "table ?b 0 = Some th" using th by (simp add: before_tick_table [OF sched_invD(4) [OF inv]])
  then have "\<exists>m. next_context ?site ?b = Env_switch ?site m"
    using n c by (simp add: next_context_def table_switched [OF switchableD(3) [OF tr(1)]]
        switch_thread_def Let_def inc_def setState_def saveEnv_def)
  then show "\<exists>b. tick s = Goes (Comes_back b) (after_tick s)"
    using qt(8) by (auto simp: continues_def)
qed

lemma duo_tick:
  assumes s: "duo t u e s" and max: "totalQuantums s < INT_MAX"
  shows "\<exists>site m. duo u t (Env_switch site m) (after_tick s)" "tick s = Goes (continues e) (after_tick s)"
proof -
  obtain uh where d: "quiet s" "tids s = {t, u}" "t \<noteq> u" "currentTid s = t" "readyQueue s = [u]"
    "table s u = Some uh" "env uh = e"
    using s by (auto simp: duo_def)
  have inv: "sched_inv s" and en: "tick_enabled s" using d(1) by (simp_all add: quiet_def)
  note qt = quiet_tick [OF d(1) max]
  have tq: "tick_queue s = [u, t]" using qt(6) d(2-5) by auto
  let ?b = "before_tick_switch s" and ?site = "From_timer (sigmask s)"
  note tr = tick_ready [OF inv en max]
  have n: "next_tid ?b = u" using tr(3) tq by (simp add: next_tid_def)
  have w: "wakes s (sleepingThreads s) = []" using d(1) by (simp add: quiet_def wakes_def due_def)
  then have bu: "table ?b u = Some uh" using d(6) by (simp add: before_tick_table [OF sched_invD(4) [OF inv]])
  have "next_context ?site ?b = e"
    using n d bu by (simp add: next_context_def table_switched [OF switchableD(3) [OF tr(1)]]
        switch_thread_def Let_def inc_def setState_def)
  then show "tick s = Goes (continues e) (after_tick s)" using qt(8) by simp
  obtain th where th: "table s t = Some th"
    using d(2) owned_table [OF sched_invD(4) [OF inv], of t] by auto
  have "\<exists>m. env (switch_thread ?site ?b t th) = Env_switch ?site m"
    using n d by (simp add: switch_thread_def Let_def inc_def setState_def saveEnv_def)
  then show "\<exists>site m. duo u t (Env_switch site m) (after_tick s)"
    using qt(1,2) qt(7) [OF th] tick_next [OF inv en max] d tq by (auto simp: duo_def)
qed

lemma solo_spawn:
  assumes s: "solo obj s" and max: "totalQuantums s < INT_MAX" and e: "entry \<noteq> 0"
    and al: "obj_addr al \<noteq> 0" "obj_addr al \<noteq> obj" "stack_addr al \<noteq> 0"
  shows "\<exists>sp u. perform al (Spawn entry) s = Goes (Returns 1) u
    \<and> duo 0 1 (Env_entry sp (translate_address (guard s) entry) {}) u
    \<and> guard u = guard s \<and> totalQuantums u = totalQuantums s"
proof -
  have q: "quiet s" and c: "currentTid s = 0" "readyQueue s = []" "threads s = [(0, obj)]"
    using s by (simp_all add: solo_def)
  have inv: "sched_inv s" and en: "tick_enabled s" using q by (simp_all add: quiet_def)
  note d = sched_invD [OF inv]
  have t: "tids s = {0}" using c(3) by (simp add: tids_def um_keys_def)
  have f: "free_tid s = 1"
    using free_tid_spec [of s]
  proof (elim disjE conjE)
    assume "{0..<MAX_THREAD_NUM} \<subseteq> tids s"
    then have "(1 :: int) \<in> tids s" by (rule subsetD) (simp add: MAX_THREAD_NUM_def)
    then show ?thesis using t by simp
  next
    assume f: "0 \<le> free_tid s" "free_tid s \<notin> tids s" "\<forall>t. 0 \<le> t \<and> t < free_tid s \<longrightarrow> t \<in> tids s"
    have "free_tid s \<noteq> 0" using f(2) t by simp
    moreover have "\<not> 1 < free_tid s" using f(3) [rule_format, of 1] t by auto
    ultimately show ?thesis using f(1) by linarith
  qed
  have "live_stacks s = []"
    using d(5) t owned_table [OF d(4)] unfolding stacks_ok_def by (metis singletonD list.set_intros(1)
        neq_Nil_conv)
  moreover have "um_keys (heap s) \<subseteq> {obj}"
  proof
    fix p
    assume "p \<in> um_keys (heap s)"
    then obtain t where "um_find (threads s) t = Some p" using d(4) unfolding owned_def by blast
    then show "p \<in> {obj}" by (simp add: c(3) um_find_def split: if_splits)
  qed
  ultimately have ok: "alloc_ok al s" using al by (auto simp: alloc_ok_def)
  have p: "perform al (Spawn entry) s = Goes (Returns 1) (spawned al entry 1 s)"
    using call_eval [OF inv ok _ max, of "Spawn entry"] e f
    by (simp add: allowed_def call_result_def departs_def stays_def)
  have "quiet (spawned al entry 1 s)"
    using q en stays_inv [OF inv ok, of "Spawn entry"] e f
    by (simp add: quiet_def stays_def allowed_def tick_enabled_def)
  moreover have "tids (spawned al entry 1 s) = {0, 1}" using t by (auto simp: spawned_def tids_def)
  ultimately have "duo 0 1 (Env_entry (translate_address (guard s) (initial_sp (stack_addr al)))
      (translate_address (guard s) entry) {}) (spawned al entry 1 s)"
    using c t table_spawned [OF d(4) ok, of 1 entry] by (simp add: duo_def new_thread_def)
  then show ?thesis using p by auto
qed

end
