(* ===== verification/Preemption.thy ===== *)
theory Preemption
  imports Pairs Clients
begin

section \<open>Preemption as a client sees it\<close>

text \<open>
  \<open>TomTests/test6.cpp\<close> under every schedule: its second thread loops for ever, and the program ends
  all the same, because the timer takes the processor away.  The proof does not run the
  program; it follows the client over the properties of the library.
\<close>

definition test6_says :: string where
  "test6_says = ''If this test doesn't stop running, you've failed the test'' @ endl"

definition test6_program :: program where
  "test6_program = linked test6_f []"

text \<open>
  Where the program is: \<open>m\<close> statements of \<open>main\<close> are left, thread \<open>t\<close> runs; \<open>b\<close> bounds the quanta
  and the allocations made so far.
\<close>

definition other_context :: "int \<Rightarrow> jmp_env \<Rightarrow> client \<Rightarrow> bool" where
  "other_context t e c \<longleftrightarrow>
     (\<exists>site m. e = Env_switch site m) \<and> rest (tasks c 1) = test6_f
     \<or> t = 0 \<and> (\<exists>sp. e = Env_entry sp (translate_address (guard (process c)) addr_f) {})"

definition test6_at :: "nat \<Rightarrow> nat \<Rightarrow> int \<Rightarrow> client \<Rightarrow> bool" where
  "test6_at b m t c \<longleftrightarrow> rest (tasks c 0) = drop (6 - m) test6_main \<and> (t = 0 \<or> t = 1) \<and> b \<le> 1000
     \<and> printed c = (if m = 1 then test6_says @ ''Test passed'' @ endl else test6_says)
     \<and> totalQuantums (process c) + (if 3 \<le> m then 1 else 0) \<le> int b
     \<and> (if m = 4 then t = 0 \<and> solo (obj_addr (memory 1)) (process c) \<and> 2 \<le> steps c \<and> steps c \<le> b
        else \<exists>e. duo t (1 - t) e (process c) \<and> other_context t e c)"

lemma test6_max: "test6_at b m t c \<Longrightarrow> totalQuantums (process c) < INT_MAX"
  by (auto simp: test6_at_def INT_MAX_def split: if_splits)

lemma test6_enabled: "test6_at b m t c \<Longrightarrow> tick_enabled (process c)"
  by (auto simp: test6_at_def solo_def duo_def quiet_def split: if_splits)

lemma test6_current: "test6_at b m t c \<Longrightarrow> currentTid (process c) = t"
  by (auto simp: test6_at_def solo_def duo_def split: if_splits)

lemma starts_loop: "test6_program (restore_address g (translate_address g addr_f)) = test6_f"
  by (simp add: x86_64.demangle_mangle test6_program_def linked_def)

subsection \<open>The steps\<close>

lemma pair_tick:
  assumes "duo t (1 - t) e (process c)" "other_context t e c" "t = 0 \<or> t = 1"
    and max: "totalQuantums (process c) < INT_MAX"
  shows "\<exists>c' e'. go_on test6_program [] c (tick (process c)) = Running c'
    \<and> duo (1 - t) t e' (process c') \<and> other_context (1 - t) e' c'
    \<and> totalQuantums (process c') = totalQuantums (process c) + 1
    \<and> rest (tasks c' 0) = rest (tasks c 0) \<and> printed c' = printed c"
proof -
  let ?s = "after_tick (process c)"
  obtain site m where d: "duo (1 - t) t (Env_switch site m) ?s"
    using duo_tick(1) [OF assms(1) max] by auto
  have q: "quiet (process c)" using assms(1) by (simp add: duo_def)
  note qt = quiet_tick(4,5) [OF q max]
  have cur: "currentTid ?s = 1 - t" using d by (simp add: duo_def)
  show ?thesis
    using assms(2)
    unfolding other_context_def duo_tick(2) [OF assms(1) max]
  proof (elim disjE conjE exE)
    fix site' m'
    assume "e = Env_switch site' m'" "rest (tasks c 1) = test6_f"
    then show "\<exists>c' e'. go_on test6_program [] c (Goes (continues e) ?s) = Running c'
      \<and> duo (1 - t) t e' (process c')
      \<and> ((\<exists>site m. e' = Env_switch site m) \<and> rest (tasks c' 1) = test6_f
         \<or> 1 - t = 0 \<and> (\<exists>sp. e' = Env_entry sp (translate_address (guard (process c')) addr_f) {}))
      \<and> totalQuantums (process c') = totalQuantums (process c) + 1
      \<and> rest (tasks c' 0) = rest (tasks c 0) \<and> printed c' = printed c"
      using d qt by (auto simp: go_on_def continues_def)
  next
    fix sp
    assume "t = 0" "e = Env_entry sp (translate_address (guard (process c)) addr_f) {}"
    then show "\<exists>c' e'. go_on test6_program [] c (Goes (continues e) ?s) = Running c'
      \<and> duo (1 - t) t e' (process c')
      \<and> ((\<exists>site m. e' = Env_switch site m) \<and> rest (tasks c' 1) = test6_f
         \<or> 1 - t = 0 \<and> (\<exists>sp. e' = Env_entry sp (translate_address (guard (process c')) addr_f) {}))
      \<and> totalQuantums (process c') = totalQuantums (process c) + 1
      \<and> rest (tasks c' 0) = rest (tasks c 0) \<and> printed c' = printed c"
      using d qt cur by (auto simp: go_on_def continues_def starts_loop)
  qed
qed

lemma test6_tick:
  assumes at: "test6_at b m t c" and b: "b < 1000"
  shows "\<exists>c'. client_step test6_program True c = Running c'
    \<and> test6_at (Suc b) m (if m = 4 then 0 else 1 - t) c'"
proof -
  note max = test6_max [OF at] and en = test6_enabled [OF at]
  let ?c = "c\<lparr>steps := Suc (steps c)\<rparr>"
  have step: "client_step test6_program True c = go_on test6_program [] ?c (tick (process ?c))"
    using en by (simp add: client_step_def)
  show ?thesis
  proof (cases "m = 4")
    case True
    then have s: "solo (obj_addr (memory 1)) (process c)" using at by (simp add: test6_at_def)
    have "totalQuantums (after_tick (process c)) = totalQuantums (process c) + 1"
      using quiet_tick(5) [OF _ max] s by (simp add: solo_def)
    then show ?thesis
      using solo_tick [OF s max] at b True unfolding step
      by (auto simp: test6_at_def go_on_def)
  next
    case False
    then obtain e where "duo t (1 - t) e (process ?c)" "other_context t e ?c" "t = 0 \<or> t = 1"
      using at by (auto simp: test6_at_def other_context_def)
    from pair_tick [OF this] max obtain c' e' where
      "go_on test6_program [] ?c (tick (process ?c)) = Running c'"
      "duo (1 - t) t e' (process c')" "other_context (1 - t) e' c'"
      "totalQuantums (process c') = totalQuantums (process c) + 1"
      "rest (tasks c' 0) = rest (tasks c 0)" "printed c' = printed c" by auto
    then show ?thesis
      using at b False unfolding step by (auto simp: test6_at_def)
  qed
qed

lemma test6_loop:
  assumes at: "test6_at b m 1 c" and m: "m \<noteq> 4"
  shows "\<exists>c'. client_step test6_program False c = Running c' \<and> test6_at b m 1 c'"
proof -
  obtain e where e: "duo 1 0 e (process c)" "other_context 1 e c"
    using at m by (auto simp: test6_at_def)
  then have "rest (tasks c 1) = test6_f" by (simp add: other_context_def)
  then show ?thesis
    using at m e test6_current [OF at]
    by (auto simp: client_step_def exec_stmt_def Let_def test6_f_def test6_at_def other_context_def)
qed

lemma unat_small: "k < 2 ^ 64 \<Longrightarrow> unat (of_nat k :: address) = k"
  by (simp add: unat_of_nat)

lemma memory_distinct:
  assumes "2 \<le> n" "n \<le> 1000"
  shows "obj_addr (memory n) \<noteq> 0" "obj_addr (memory n) \<noteq> obj_addr (memory 1)"
    "stack_addr (memory n) \<noteq> 0"
proof -
  have "unat (obj_addr (memory n)) = 4096 + 8192 * n" "unat (stack_addr (memory n)) = 8192 + 8192 * n"
    "unat (obj_addr (memory 1)) = 4096 + 8192 * 1"
    unfolding memory_def allocation.select_convs by (rule unat_small, use assms in simp)+
  then show "obj_addr (memory n) \<noteq> 0" "stack_addr (memory n) \<noteq> 0"
    "obj_addr (memory n) \<noteq> obj_addr (memory 1)"
    using assms by (metis add_is_0 zero_neq_numeral unat_0, metis add_is_0 zero_neq_numeral unat_0, auto)
qed

lemma test6_main_step:
  assumes at: "test6_at b m 0 c" and m: "2 \<le> m" "m \<le> 4"
  shows "\<exists>c'. client_step test6_program False c = Running c'
    \<and> test6_at b (m - 1) (if m = 3 then 1 else 0) c'"
proof -
  note cur = test6_current [OF at] and max = test6_max [OF at] and en = test6_enabled [OF at]
  have rest: "rest (tasks c 0) = drop (6 - m) test6_main" using at by (simp add: test6_at_def)
  consider "m = 4" | "m = 3" | "m = 2" using m by linarith
  then show ?thesis
  proof cases
    case 1
    then have s: "solo (obj_addr (memory 1)) (process c)" and n: "2 \<le> steps c" "steps c \<le> 1000"
      using at by (auto simp: test6_at_def)
    have f: "addr_f \<noteq> 0" by (simp add: addr_f_def)
    from solo_spawn [OF s max f memory_distinct [OF n]] obtain sp u where u:
      "perform (memory (steps c)) (Spawn addr_f) (process c) = Goes (Returns 1) u"
      "duo 0 1 (Env_entry sp (translate_address (guard (process c)) addr_f) {}) u"
      "guard u = guard (process c)" "totalQuantums u = totalQuantums (process c)" by blast
    have "currentTid u = 0" using u(2) by (simp add: duo_def)
    then have "\<exists>c'. client_step test6_program False c = Running c' \<and> test6_at b 3 0 c'"
      using 1 at rest cur u
      by (auto simp: client_step_def exec_stmt_def Let_def test6_main_def go_on_def test6_at_def
          other_context_def)
    then show ?thesis using 1 by auto
  next
    case 2
    then obtain e where e: "duo 0 (1 - 0) e (process c)" "other_context 0 e c"
      using at by (auto simp: test6_at_def)
    let ?c = "c\<lparr>tasks := (tasks c)(0 := (tasks c 0)\<lparr>rest := drop 4 test6_main\<rparr>), steps := Suc (steps c)\<rparr>"
    have "duo 0 (1 - 0) e (process ?c)" "other_context 0 e ?c"
      using e by (auto simp: other_context_def)
    from pair_tick [OF this] max obtain c' e' where c':
      "go_on test6_program [] ?c (tick (process ?c)) = Running c'"
      "duo 1 0 e' (process c')" "other_context 1 e' c'"
      "totalQuantums (process c') = totalQuantums (process c) + 1"
      "rest (tasks c' 0) = drop 4 test6_main" "printed c' = printed c" by auto
    have "client_step test6_program False c = go_on test6_program [] ?c (tick (process ?c))"
      using 2 rest cur en by (simp add: client_step_def exec_stmt_def Let_def test6_main_def)
    then show ?thesis
      using 2 at c' by (intro exI [of _ c']) (auto simp: test6_at_def)
  next
    case 3
    then obtain e where "duo 0 1 e (process c)" "other_context 0 e c"
      using at by (auto simp: test6_at_def)
    then have "\<exists>c'. client_step test6_program False c = Running c' \<and> test6_at b 1 0 c'"
      using 3 at rest cur
      by (auto simp: client_step_def exec_stmt_def Let_def test6_main_def test6_at_def other_context_def
          test6_says_def)
    then show ?thesis using 3 by auto
  qed
qed

lemma test6_last:
  assumes at: "test6_at b 1 0 c"
  shows "client_step test6_program False c
    = Over (Stopped (Exit 0)) (test6_says @ ''Test passed'' @ endl)"
proof -
  have inv: "sched_inv (process c)" and t: "0 \<in> tids (process c)"
    using at by (auto simp: test6_at_def duo_def quiet_def)
  have "perform al (Terminate 0) (process c) = settle (terminate 0 (process c))" for al
    using t by (simp add: perform_def uthread_terminate_known inv)
  with terminate_main [OF sched_invD(3,6) [OF inv]]
  obtain u where "perform al (Terminate 0) (process c) = Halts (Exit 0) u" for al by auto
  then show ?thesis
    using at test6_current [OF at]
    by (simp add: client_step_def exec_stmt_def Let_def test6_at_def test6_main_def go_on_def)
qed

subsection \<open>Whole runs\<close>

abbreviation test6_over :: run where
  "test6_over \<equiv> Over (Stopped (Exit 0)) (test6_says @ ''Test passed'' @ endl)"

definition test6_weight :: "nat \<Rightarrow> int \<Rightarrow> nat" where
  "test6_weight m t = 2 * m + (if t = 0 then 0 else 1)"

lemma test6_stays_in_loop:
  "test6_at b m 1 c \<Longrightarrow> m \<noteq> 4 \<Longrightarrow>
     \<exists>c'. run_client test6_program (replicate k False) c = Running c' \<and> test6_at b m 1 c'"
proof (induction k arbitrary: c)
  case (Suc k)
  with test6_loop [OF Suc.prems] show ?case by auto
qed simp

text \<open>A quantum: \<open>k\<close> steps, then the timer.  With \<open>k\<close> positive, \<open>main\<close> or its turn comes closer.\<close>

lemma test6_within_quantum:
  "test6_at b m t c \<Longrightarrow> 1 \<le> m \<Longrightarrow> m \<le> 4 \<Longrightarrow>
     run_client test6_program (replicate k False) c = test6_over
   \<or> (\<exists>c' m' t'. run_client test6_program (replicate k False) c = Running c' \<and> test6_at b m' t' c'
        \<and> 1 \<le> m' \<and> m' \<le> m \<and> (t = 1 \<longrightarrow> t' = 1 \<and> m' = m) \<and> (t = 0 \<longrightarrow> 0 < k \<longrightarrow> m' < m))"
proof (induction k arbitrary: c m t)
  case 0
  then show ?case by (intro disjI2 exI [of _ c] exI [of _ m] exI [of _ t]) simp
next
  case (Suc k)
  have t: "t = 0 \<or> t = 1" using Suc.prems(1) by (simp add: test6_at_def)
  show ?case
  proof (cases "t = 1")
    case True
    then have "m \<noteq> 4" using Suc.prems(1) by (auto simp: test6_at_def)
    then obtain c' where "run_client test6_program (replicate (Suc k) False) c = Running c'"
      "test6_at b m 1 c'"
      using test6_stays_in_loop [of b m c "Suc k"] Suc.prems True by auto
    then show ?thesis
      using Suc.prems True by (intro disjI2 exI [of _ c'] exI [of _ m] exI [of _ 1]) simp
  next
    case False
    then have t0: "t = 0" using t by simp
    show ?thesis
    proof (cases "m = 1")
      case True
      then show ?thesis using test6_last Suc.prems(1) t0 by simp
    next
      case False
      with Suc.prems obtain c' t' where c': "client_step test6_program False c = Running c'"
        "test6_at b (m - 1) t' c'"
        using test6_main_step [of b m c] t0 by auto
      have "1 \<le> m - 1" "m - 1 \<le> 4" using Suc.prems False by auto
      from Suc.IH [OF c'(2) this] show ?thesis
        using c'(1) t0 Suc.prems(2) by fastforce
    qed
  qed
qed

lemma test6_quantum:
  assumes at: "test6_at b m t c" and m: "1 \<le> m" "m \<le> 4" and b: "b < 1000" and k: "0 < k"
  shows "run_client test6_program (replicate k False @ [True]) c = test6_over
   \<or> (\<exists>c' m' t'. run_client test6_program (replicate k False @ [True]) c = Running c'
        \<and> test6_at (Suc b) m' t' c' \<and> 1 \<le> m' \<and> m' \<le> 4
        \<and> test6_weight m' t' < test6_weight m t)"
  using test6_within_quantum [OF at m, of k]
proof (elim disjE exE conjE)
  assume "run_client test6_program (replicate k False) c = test6_over"
  then show ?thesis by (simp add: run_client_append)
next
  fix c' m' t'
  assume r: "run_client test6_program (replicate k False) c = Running c'" "test6_at b m' t' c'"
    "1 \<le> m'" "m' \<le> m" "t = 1 \<longrightarrow> t' = 1 \<and> m' = m" "t = 0 \<longrightarrow> 0 < k \<longrightarrow> m' < m"
  let ?t = "if m' = 4 then 0 else 1 - t'"
  from test6_tick [OF r(2) b] obtain d where d: "client_step test6_program True c' = Running d"
    "test6_at (Suc b) m' ?t d" by auto
  have t: "t = 0 \<or> t = 1" "t' = 0 \<or> t' = 1" "m = 4 \<longrightarrow> t = 0"
    using at r(2) by (auto simp: test6_at_def)
  then have "test6_weight m' ?t < test6_weight m t"
    using r(4-6) k m by (auto simp: test6_weight_def)
  moreover have "run_client test6_program (replicate k False @ [True]) c = Running d"
    using r(1) d(1) by (simp add: run_client_append)
  moreover have "m' \<le> 4" using r(4) m by simp
  ultimately show ?thesis using r(3) d(2) by blast
qed

lemma test6_quanta:
  "test6_at b m t c \<Longrightarrow> 1 \<le> m \<Longrightarrow> m \<le> 4 \<Longrightarrow> \<forall>k \<in> set ks. 0 < k \<Longrightarrow> b + length ks \<le> 1000 \<Longrightarrow>
     test6_weight m t < length ks + 2 \<Longrightarrow>
     run_client test6_program (expires_after ks) c = test6_over"
proof (induction ks arbitrary: b m t c)
  case Nil
  then show ?case by (simp add: test6_weight_def split: if_splits)
next
  case (Cons k ks)
  have e: "expires_after (k # ks) = (replicate k False @ [True]) @ expires_after ks"
    by (simp add: expires_after_def)
  have "b < 1000" "0 < k" using Cons.prems by auto
  from test6_quantum [OF Cons.prems(1-3) this] show ?case
  proof (elim disjE exE conjE)
    fix c' m' t'
    assume r: "run_client test6_program (replicate k False @ [True]) c = Running c'"
      "test6_at (Suc b) m' t' c'" "1 \<le> m'" "m' \<le> 4" "test6_weight m' t' < test6_weight m t"
    have "run_client test6_program (expires_after ks) c' = test6_over"
      by (rule Cons.IH [OF r(2-4)]) (use Cons.prems r(5) in auto)
    then show ?thesis using r(1) unfolding e run_client_append by simp
  qed (simp only: e run_client_append run.case)
qed

text \<open>The first two steps of \<open>main\<close>, before which there is no timer.\<close>

lemma test6_start:
  "\<exists>c. run_client test6_program [x, y] (launch test6_main no_vars) = Running c \<and> test6_at 2 4 0 c"
proof -
  let ?g = "81985529216486895 :: address" and ?p = "obj_addr (memory 1)"
  have p: "?p \<noteq> 0" by (simp add: memory_def)
  note init = init_eval [of 999999 "memory 1" ?g "{}", OF _ p, simplified]
  have "sched_inv (booted ?p 999999 ?g {})" by (rule booted_inv [OF _ p]) simp
  then have "solo ?p (booted ?p 999999 ?g {})"
    by (simp add: solo_def quiet_def booted_def tick_enabled_def)
  then show ?thesis
    by (simp add: client_step_def exec_stmt_def Let_def launch_def test6_main_def go_on_def
        tick_enabled_def boot_def [of ?g "{}" "[]"] perform_def init [unfolded boot_def] test6_at_def
        test6_says_def booted_def)
qed

lemma test6_quanta_from_start:
  assumes ks: "\<forall>k \<in> set ks. 0 < k" and len: "length ks = 8"
  shows "run_client test6_program (expires_after ks) (launch test6_main no_vars) = test6_over"
proof -
  let ?c0 = "launch test6_main no_vars"
  obtain k ls where kl: "ks = k # ls" "length ls = 7" using len by (cases ks) auto
  obtain x ys where bs: "replicate k False @ [True] = False # x # ys"
    "ys = [] \<or> (\<exists>j. ys = replicate j False @ [True])"
  proof (cases k)
    case (Suc j)
    show ?thesis
    proof (cases j)
      case 0
      then show ?thesis using Suc that [of True "[]"] by simp
    next
      case (Suc i)
      then show ?thesis using \<open>k = Suc j\<close> that [of False "replicate i False @ [True]"] by simp
    qed
  qed (use ks kl in simp)
  have e: "expires_after ks = [False, x] @ ys @ expires_after ls"
    using bs(1) kl(1) by (simp add: expires_after_def)
  obtain c where c: "run_client test6_program [False, x] ?c0 = Running c" "test6_at 2 4 0 c"
    using test6_start [of False x] by blast
  have rest: "run_client test6_program (expires_after ls) d = test6_over"
    if "test6_at (2 + i) m t d" "i \<le> 1" "1 \<le> m" "m \<le> 4" "test6_weight m t \<le> 8" for i d m t
    by (rule test6_quanta [OF that(1,3,4)]) (use ks kl that in auto)
  have w: "test6_weight 4 0 = 8" by (simp add: test6_weight_def)
  from bs(2) show ?thesis
  proof (elim disjE exE)
    assume ys: "ys = []"
    have "run_client test6_program (expires_after ls) c = test6_over"
      using rest [of 0 4 0 c] c(2) w by simp
    then show ?thesis
      unfolding e ys append_Nil run_client_append [of _ "[False, x]"] c(1) by simp
  next
    fix j
    assume ys: "ys = replicate j False @ [True]"
    have "run_client test6_program ys c = test6_over
      \<or> (\<exists>c' m' t'. run_client test6_program ys c = Running c' \<and> test6_at (2 + 1) m' t' c'
          \<and> 1 \<le> m' \<and> m' \<le> 4 \<and> test6_weight m' t' \<le> 8)"
    proof (cases "j = 0")
      case True
      obtain d where "client_step test6_program True c = Running d" "test6_at (2 + 1) 4 0 d"
        using test6_tick [OF c(2)] by (auto simp: numeral_3_eq_3)
      then show ?thesis
        using ys True w by (intro disjI2 exI [of _ d] exI [of _ 4] exI [of _ 0]) simp
    next
      case False
      with test6_quantum [OF c(2), of j] w show ?thesis
        unfolding ys by (fastforce simp: numeral_3_eq_3)
    qed
    then show ?thesis
      unfolding e run_client_append [of _ "[False, x]"] c(1) run.case run_client_append [of _ ys]
      using rest [of 1] by auto
  qed
qed

lemma test6_without_timer:
  "\<exists>c. run_client test6_program (never_expires n) (launch test6_main no_vars) = Running c"
proof -
  let ?c0 = "launch test6_main no_vars"
  obtain c where c: "run_client test6_program [False, False] ?c0 = Running c" "test6_at 2 4 0 c"
    using test6_start by blast
  obtain d where d: "client_step test6_program False c = Running d" "test6_at 2 3 0 d"
    using test6_main_step [OF c(2)] by auto
  obtain d' where d': "client_step test6_program False d = Running d'" "test6_at 2 2 1 d'"
    using test6_main_step [OF d(2)] by auto
  obtain e where e: "run_client test6_program (replicate n False) d' = Running e"
    using test6_stays_in_loop [OF d'(2)] by auto
  have run: "run_client test6_program ([False, False] @ [False, False] @ replicate n False) ?c0
      = Running e"
    unfolding run_client_append c(1) using d(1) d'(1) e by simp
  have "[False, False] @ [False, False] @ replicate n False
      = replicate n False @ replicate 4 False"
  proof -
    have "[False, False] @ [False, False] @ replicate n False = replicate 4 False @ replicate n False"
      by (simp add: numeral_eq_Suc)
    also have "\<dots> = replicate n False @ replicate 4 False"
      by (simp only: add.commute flip: replicate_add)
    finally show ?thesis .
  qed
  with run have "run_client test6_program (replicate n False @ replicate 4 False) ?c0 = Running e"
    by (simp only:)
  then show ?thesis
    by (auto simp: never_expires_def run_client_append split: run.splits)
qed

text \<open>C11: \<open>test6.cpp\<close> ends under every timer that lets each quantum last at least one step: after at
  most eight quanta its \<open>main\<close> has printed that the test passed and exited with 0, although its
  second thread never gives up the processor; longer schedules change nothing.  Without
  expirations it runs for ever.\<close>

theorem test6_always_ends:
  assumes "8 \<le> length ks" "\<forall>k \<in> set ks. 0 < k"
  shows "run_client (linked test6_f []) (expires_after ks) (launch test6_main no_vars)
      = Over (Stopped (Exit 0)) (''If this test doesn't stop running, you've failed the test'' @ endl
          @ ''Test passed'' @ endl)
    \<and> (\<forall>n. \<exists>c. run_client (linked test6_f []) (never_expires n) (launch test6_main no_vars)
          = Running c)"
proof -
  have "expires_after ks = expires_after (take 8 ks) @ expires_after (drop 8 ks)"
    unfolding expires_after_def by (metis append_take_drop_id concat_append map_append)
  moreover have "run_client test6_program (expires_after (take 8 ks)) (launch test6_main no_vars)
      = test6_over"
    by (rule test6_quanta_from_start) (use assms in \<open>auto dest: in_set_takeD\<close>)
  ultimately show ?thesis
    using test6_without_timer by (simp add: test6_program_def test6_says_def run_client_append)
qed

theorem test6_always_ends_witness:
  "run_client (linked test6_f []) (expires_after (replicate 8 1)) (launch test6_main no_vars)
     = Over (Stopped (Exit 0)) (''If this test doesn't stop running, you've failed the test'' @ endl
         @ ''Test passed'' @ endl)"
  using test6_always_ends [of "replicate 8 1"] by simp

end
