(* ===== verification/Interrupts.thy ===== *)
theory Interrupts
  imports Samples
begin

section \<open>The timer inside a call\<close>

text \<open>
  A call is not one critical section.  The signal is deliverable before the first
  \<open>blockTimerSignal\<close>, after which the code goes on with what it read before: the new ID in
  \<open>spawn\<close>, the pointer and the state in \<open>block\<close> and \<open>resume\<close>; behind \<open>removeFromReadyQueue\<close>, which
  unblocks it in the middle of the critical sections of \<open>terminate\<close> and \<open>block\<close>; and in
  \<open>getQuantums\<close> before the count is read.  Here these functions are cut at such a point, and
  other threads run between the two parts.
\<close>

subsection \<open>The two parts of a call\<close>

text \<open>\<open>terminate\<close> of a thread other than the main one, cut behind \<open>removeFromReadyQueue\<close>.\<close>

definition terminate_begin :: "int \<Rightarrow> unit act" where
  "terminate_begin tid = stmts [blockTimerSignal] (bnd (ask_thread tid getState) (\<lambda>st. stmts
     [if st = READY then removeFromReadyQueue tid else ret ()] (ret ())))"

definition terminate_end :: "int \<Rightarrow> int act" where
  "terminate_end tid = cond (\<lambda>s. tid \<noteq> currentTid s)
     (stmts [modify (\<lambda>s. s\<lparr>sleepingThreads := um_erase tid (sleepingThreads s)\<rparr>),
             bnd (threads_at tid) delete_thread,
             modify (\<lambda>s. s\<lparr>threads := um_erase tid (threads s)\<rparr>),
             unblockTimerSignal] (ret 0))
     (cond (\<lambda>s. q_empty (readyQueue s))
       (stmts [print_err ''thread library error: no threads left to run after termination'',
               unblockTimerSignal] (ret (-1)))
       (stmts [modify (\<lambda>s. s\<lparr>pendingDeletionTid := currentTid s\<rparr>),
               reads (\<lambda>s. on_thread (pendingDeletionTid s) (setState READY)),
               doContextSwitch From_terminate] (ret 0)))"

text \<open>\<open>block\<close> of a thread that is READY and not marked, cut behind \<open>removeFromReadyQueue\<close>.\<close>

definition block_begin :: "int \<Rightarrow> address act" where
  "block_begin tid = bnd (threads_at tid) (\<lambda>p. bnd (deref p) (\<lambda>th.
     stmts [blockTimerSignal, removeFromReadyQueue tid] (ret p)))"

definition block_end :: "address \<Rightarrow> int act" where
  "block_end p = stmts
     [call_method p (\<lambda>th. Some (setState BLOCKED th)),
      call_method p (\<lambda>th. Some (setBlockFlag True th)),
      unblockTimerSignal] (ret 0)"

text \<open>\<open>resume\<close> of a thread that is BLOCKED, cut before \<open>blockTimerSignal\<close>.\<close>

definition resume_begin :: "int \<Rightarrow> address act" where
  "resume_begin tid = bnd (threads_at tid) (\<lambda>p. bnd (deref p) (\<lambda>th. ret p))"

definition resume_end :: "int \<Rightarrow> address \<Rightarrow> int act" where
  "resume_end tid p = stmts [blockTimerSignal] (cond (\<lambda>s. um_count (sleepingThreads s) tid > 0)
     (stmts [call_method p (\<lambda>th. Some (setBlockFlag False th)), unblockTimerSignal] (ret 0))
     (stmts [call_method p (\<lambda>th. Some (setState READY th)), push_ready tid,
             unblockTimerSignal] (ret 0)))"

text \<open>\<open>getQuantums\<close> of a thread that exists, cut behind \<open>unblockTimerSignal\<close>.\<close>

definition getQuantums_begin :: "unit act" where
  "getQuantums_begin = stmts [blockTimerSignal, unblockTimerSignal] (ret ())"

definition getQuantums_end :: "int \<Rightarrow> int act" where
  "getQuantums_end tid = ask_thread tid getQuantumCount"

text \<open>The parts are the functions; \<open>spawn\<close> is already two parts.\<close>

lemma terminate_parts:
  "tid \<noteq> 0 \<Longrightarrow> terminate tid = bnd (terminate_begin tid) (\<lambda>_. terminate_end tid)"
  by (rule ext) (simp add: terminate_def terminate_begin_def terminate_end_def act_simps
      split: outcome.splits)

lemma block_parts:
  assumes "table s tid = Some th" "state th = READY" "\<not> didUserBlock th"
  shows "block tid s = bnd (block_begin tid) block_end s"
  using assms by (auto elim!: table_SomeE simp: block_def block_begin_def block_end_def threads_at_def
      deref_def act_simps split: outcome.splits)

lemma resume_parts:
  assumes "table s tid = Some th" "state th = BLOCKED" "0 \<le> tid"
  shows "resume tid s = bnd (resume_begin tid) (resume_end tid) s"
  using assms by (auto elim!: table_SomeE simp: resume_def resume_begin_def resume_end_def threads_at_def
      deref_def um_count_def um_find_def act_simps split: outcome.splits)

lemma getQuantums_parts:
  assumes "failing s = []" "um_count (threads s) tid \<noteq> 0"
  shows "getQuantums tid s = bnd getQuantums_begin (\<lambda>_. getQuantums_end tid) s"
  using assms by (simp add: getQuantums_def getQuantums_begin_def getQuantums_end_def act_simps)

lemma spawn_parts:
  assumes "available_from (threads s) 0 \<noteq> -1"
  shows "spawn al entry s = bnd nextAvailableTid (spawn_with al entry) s"
  using assms by (simp add: spawn_def nextAvailableTid_def act_simps)

subsection \<open>What may happen in between\<close>

text \<open>
  \<open>between\<close>: the first part, then a script of ticks and calls of other threads, numbered from \<open>n\<close>;
  once the interrupted thread runs again, its handler has returned and the second part follows.
\<close>

definition between :: "'a act \<Rightarrow> nat \<Rightarrow> command list \<Rightarrow> ('a \<Rightarrow> int act) \<Rightarrow> machine \<Rightarrow> result" where
  "between first n others rest s = (case first s of
     Stop e t \<Rightarrow> settle (Stop e t)
   | Done a t \<Rightarrow> (case play n others t of
       Halts e u \<Rightarrow> Halts e u
     | Goes k u \<Rightarrow> settle (rest a u)))"

definition fair_interruption :: "'a act \<Rightarrow> nat \<Rightarrow> command list \<Rightarrow> machine \<Rightarrow> bool" where
  "fair_interruption first n others s = (case first s of
     Stop e t \<Rightarrow> False
   | Done a t \<Rightarrow> legal n others t \<and> (case play n others t of
       Halts e u \<Rightarrow> False
     | Goes k u \<Rightarrow> currentTid u = currentTid s \<and> (others \<noteq> [] \<longrightarrow> k = Comes_back (From_timer (sigmask t)))))"

lemma between_nothing: "between first n [] rest s = settle (bnd first rest s)"
  by (simp add: between_def act_simps split: outcome.splits)

text \<open>
  Where the first part only reads, the second part is the whole call at the later moment, as long
  as what was read still holds then.
\<close>

lemma resume_end_late:
  assumes "um_find (threads u) tid = Some p" "um_find (heap u) p = Some th" "state th = BLOCKED" "0 \<le> tid"
  shows "resume_end tid p u = resume tid u"
proof -
  have "table u tid = Some th" using assms by (simp add: table_def)
  then show ?thesis
    using assms by (simp add: resume_parts resume_begin_def threads_at_def deref_def act_simps)
qed

lemma spawn_with_late:
  "available_from (threads u) 0 = tid \<Longrightarrow> tid \<noteq> -1 \<Longrightarrow> spawn_with al entry tid u = spawn al entry u"
  by (simp add: spawn_parts nextAvailableTid_def act_simps)

lemma getQuantums_end_late:
  assumes "failing u = []" "um_count (threads u) tid \<noteq> 0" "SIGVTALRM \<notin> sigmask u"
  shows "getQuantums_end tid u = getQuantums tid u"
proof -
  have "u\<lparr>sigmask := sigmask u\<rparr> = u" by simp
  with assms show ?thesis
    by (simp add: getQuantums_parts getQuantums_begin_def act_simps insert_Diff_if)
qed

subsection \<open>Races\<close>

text \<open>Thread 1 runs, threads 2 and 0 are ready; the same with thread 2 blocked.\<close>

definition two_ready :: machine where
  "two_ready = after [Call (Spawn 77), Call (Spawn 88), Tick]"

definition one_blocked :: machine where
  "one_blocked = after [Call (Spawn 77), Call (Spawn 88), Tick, Call (Block 2)]"

lemmas race_simps =
  two_ready_def one_blocked_def between_def fair_interruption_def terminate_begin_def terminate_end_def
  block_begin_def block_end_def resume_begin_def resume_end_def getQuantums_begin_def
  getQuantums_end_def run_simps state_simps

lemma terminate_race:
  "fair_interruption (terminate_begin 2) 9 [Tick, Call (Terminate 2), Call (Spawn 99), Tick] two_ready"
  "\<exists>u v. between (terminate_begin 2) 9 [Tick, Call (Terminate 2), Call (Spawn 99), Tick]
       (\<lambda>_. terminate_end 2) two_ready = Goes (Returns 0) u
     \<and> 2 \<in> set (readyQueue u) \<and> 2 \<notin> tids u \<and> tick u = Halts (Fault Null_pointer) v"
  by (simp_all add: race_simps)

lemma block_race:
  "fair_interruption (block_begin 2) 9 [Tick, Call (Terminate 2), Tick] two_ready"
  "\<exists>u. between (block_begin 2) 9 [Tick, Call (Terminate 2), Tick] block_end two_ready
     = Halts (Fault Dangling_pointer) u"
  by (simp_all add: race_simps)

lemma spawn_race:
  "fair_interruption nextAvailableTid 9 [Tick, Call (Spawn 99), Tick, Tick] two_ready"
  "\<exists>u. between nextAvailableTid 9 [Tick, Call (Spawn 99), Tick, Tick] (spawn_with (memory 19) 55) two_ready
     = Goes (Returns 3) u \<and> \<not> distinct (readyQueue u) \<and> length (heap u) = Suc (length (threads u))"
  by (simp_all add: race_simps)

lemma getQuantums_race:
  "fair_interruption getQuantums_begin 9 [Tick, Tick, Call (Terminate 2), Tick] two_ready"
  "\<exists>u. between getQuantums_begin 9 [Tick, Tick, Call (Terminate 2), Tick] (\<lambda>_. getQuantums_end 2) two_ready
     = Halts (Fault Null_pointer) u"
  by (simp_all add: race_simps)

lemma resume_race:
  "fair_interruption (resume_begin 2) 9 [Tick, Call (Resume 2), Tick] one_blocked"
  "\<exists>u. between (resume_begin 2) 9 [Tick, Call (Resume 2), Tick] (resume_end 2) one_blocked
     = Goes (Returns 0) u \<and> \<not> distinct (readyQueue u)"
  by (simp_all add: race_simps)

text \<open>C33: the calls are not atomic.  From states the library reaches, and with every call in
  between permitted, a tick inside \<open>terminate\<close> lets another thread terminate the same thread and
  spawn one with its ID, which the interrupted call then deletes, leaving a dead ID in the ready
  queue on which the next tick dereferences a null pointer; inside \<open>block\<close> the call goes on with
  a pointer to a deleted object; inside \<open>spawn\<close> two threads get the same ID and an object is
  lost; inside \<open>resume\<close> a thread is queued twice; inside \<open>getQuantums\<close> the count of a deleted
  thread is read.\<close>

theorem calls_are_not_atomic:
  "reachable two_ready \<and> reachable one_blocked
   \<and> fair_interruption (terminate_begin 2) 9 [Tick, Call (Terminate 2), Call (Spawn 99), Tick] two_ready
   \<and> (\<exists>u v. between (terminate_begin 2) 9 [Tick, Call (Terminate 2), Call (Spawn 99), Tick]
         (\<lambda>_. terminate_end 2) two_ready = Goes (Returns 0) u
       \<and> 2 \<in> set (readyQueue u) \<and> 2 \<notin> tids u \<and> tick u = Halts (Fault Null_pointer) v)
   \<and> fair_interruption (block_begin 2) 9 [Tick, Call (Terminate 2), Tick] two_ready
   \<and> (\<exists>u. between (block_begin 2) 9 [Tick, Call (Terminate 2), Tick] block_end two_ready
       = Halts (Fault Dangling_pointer) u)
   \<and> fair_interruption nextAvailableTid 9 [Tick, Call (Spawn 99), Tick, Tick] two_ready
   \<and> (\<exists>u. between nextAvailableTid 9 [Tick, Call (Spawn 99), Tick, Tick] (spawn_with (memory 19) 55)
         two_ready = Goes (Returns 3) u
       \<and> \<not> distinct (readyQueue u) \<and> length (heap u) = Suc (length (threads u)))
   \<and> fair_interruption (resume_begin 2) 9 [Tick, Call (Resume 2), Tick] one_blocked
   \<and> (\<exists>u. between (resume_begin 2) 9 [Tick, Call (Resume 2), Tick] (resume_end 2) one_blocked
       = Goes (Returns 0) u \<and> \<not> distinct (readyQueue u))
   \<and> fair_interruption getQuantums_begin 9 [Tick, Tick, Call (Terminate 2), Tick] two_ready
   \<and> (\<exists>u. between getQuantums_begin 9 [Tick, Tick, Call (Terminate 2), Tick] (\<lambda>_. getQuantums_end 2)
         two_ready = Halts (Fault Null_pointer) u)"
proof -
  have "reachable two_ready" unfolding two_ready_def by (rule sample_running)
  moreover have "reachable one_blocked"
    unfolding one_blocked_def by (rule after_reachable) (simp add: run_simps state_simps)
  ultimately show ?thesis
    by (intro conjI terminate_race block_race spawn_race resume_race getQuantums_race)
qed

end
