(* ===== verification/Bystanders.thy ===== *)
theory Bystanders
  imports Samples
begin

section \<open>Threads that a step is not about\<close>

text \<open>
  Every function of the scheduler is blind to the object of a thread that is neither running nor
  queued nor asleep nor about to be deleted, and that the call does not name: with another object
  in its place the function does the same, and leaves that object there.  The proofs follow the
  statements of the code and need no invariant.
\<close>

subsection \<open>Blind actions\<close>

text \<open>\<open>swap p v\<close> puts \<open>v\<close> in the place of the object at \<open>p\<close>.\<close>

definition swap :: "address \<Rightarrow> thread \<Rightarrow> machine \<Rightarrow> machine" where
  "swap p v s = s\<lparr>heap := um_put p v (heap s)\<rparr>"

text \<open>Thread \<open>t\<close> with its object \<open>th\<close> at \<open>p\<close> is not involved in what the scheduler does.\<close>

definition apart :: "int \<Rightarrow> address \<Rightarrow> thread \<Rightarrow> machine \<Rightarrow> bool" where
  "apart t p th s \<longleftrightarrow> um_find (threads s) t = Some p \<and> um_find (heap s) p = Some th \<and> p \<noteq> 0
     \<and> (\<forall>u. u \<noteq> t \<longrightarrow> um_find (threads s) u \<noteq> Some p)
     \<and> currentTid s \<noteq> t \<and> pendingDeletionTid s \<noteq> t \<and> t \<notin> set (readyQueue s)
     \<and> t \<notin> um_keys (sleepingThreads s) \<and> t \<noteq> -1"

definition same_outcome :: "int \<Rightarrow> address \<Rightarrow> thread \<Rightarrow> thread \<Rightarrow> ('a \<Rightarrow> bool) \<Rightarrow>
    (stop, machine, 'a) outcome \<Rightarrow> (stop, machine, 'a) outcome \<Rightarrow> bool" where
  "same_outcome t p th v Q r r' \<longleftrightarrow> (case r of
     Done x s \<Rightarrow> Q x \<and> apart t p th s \<and> r' = Done x (swap p v s)
   | Stop e s \<Rightarrow> apart t p th s \<and> r' = Stop e (swap p v s))"

definition blind :: "int \<Rightarrow> address \<Rightarrow> thread \<Rightarrow> thread \<Rightarrow> 'a act \<Rightarrow> ('a \<Rightarrow> bool) \<Rightarrow> bool" where
  "blind t p th v a Q \<longleftrightarrow>
     (\<forall>s. apart t p th s \<longrightarrow> same_outcome t p th v Q (a s) (a (swap p v s)))"

lemma same_outcome_simps [simp]:
  "same_outcome t p th v Q (Done x s) r' \<longleftrightarrow> Q x \<and> apart t p th s \<and> r' = Done x (swap p v s)"
  "same_outcome t p th v Q (Stop e s) r' \<longleftrightarrow> apart t p th s \<and> r' = Stop e (swap p v s)"
  by (simp_all add: same_outcome_def)

lemma blindD: "blind t p th v a Q \<Longrightarrow> apart t p th s \<Longrightarrow> same_outcome t p th v Q (a s) (a (swap p v s))"
  by (simp add: blind_def)

lemma swap_frame [simp]:
  "threads (swap p v s) = threads s" "readyQueue (swap p v s) = readyQueue s"
  "sleepingThreads (swap p v s) = sleepingThreads s" "quantumUsecs (swap p v s) = quantumUsecs s"
  "totalQuantums (swap p v s) = totalQuantums s" "currentTid (swap p v s) = currentTid s"
  "pendingDeletionTid (swap p v s) = pendingDeletionTid s" "live_stacks (swap p v s) = live_stacks s"
  "sigmask (swap p v s) = sigmask s" "handler_installed (swap p v s) = handler_installed s"
  "itimer (swap p v s) = itimer s" "guard (swap p v s) = guard s" "failing (swap p v s) = failing s"
  "cerr (swap p v s) = cerr s" "heap (swap p v s) = um_put p v (heap s)"
  by (simp_all add: swap_def)

lemma blind_ret [intro]: "Q x \<Longrightarrow> blind t p th v (ret x) Q"
  by (simp add: blind_def act_simps)

lemma blind_ret_True: "blind t p th v (ret x) (\<lambda>_. True)"
  by (rule blind_ret) simp

lemma blind_leave [intro]: "blind t p th v (leave e) Q"
  by (simp add: blind_def act_simps)

lemma blind_bnd:
  assumes "blind t p th v a R" "\<And>x. R x \<Longrightarrow> blind t p th v (k x) Q"
  shows "blind t p th v (bnd a k) Q"
  unfolding blind_def
proof (intro allI impI)
  fix s
  assume "apart t p th s"
  from blindD [OF assms(1) this]
  show "same_outcome t p th v Q (bnd a k s) (bnd a k (swap p v s))"
    by (cases "a s") (auto simp: bnd_apply intro: blindD [OF assms(2)])
qed

lemma blind_stmts:
  "blind t p th v k Q \<Longrightarrow> blind t p th v (stmts [] k) Q"
  "blind t p th v a R \<Longrightarrow> blind t p th v (stmts as k) Q \<Longrightarrow> blind t p th v (stmts (a # as) k) Q"
  by (auto intro: blind_bnd)

lemma blind_cond:
  "(\<And>s. b (swap p v s) = b s) \<Longrightarrow> blind t p th v a Q \<Longrightarrow> blind t p th v a' Q \<Longrightarrow>
     blind t p th v (cond b a a') Q"
  by (simp add: blind_def cond_def)

lemma blind_reads:
  "(\<And>s. apart t p th s \<Longrightarrow> blind t p th v (g s) Q) \<Longrightarrow> (\<And>s. g (swap p v s) = g s) \<Longrightarrow>
     blind t p th v (reads g) Q"
  by (simp add: blind_def reads_def)

lemma blind_modify:
  "(\<And>s. apart t p th s \<Longrightarrow> apart t p th (f s) \<and> f (swap p v s) = swap p v (f s)) \<Longrightarrow>
     blind t p th v (modify f) (\<lambda>_. True)"
  by (simp add: blind_def modify_def)

lemma blind_weaken:
  assumes "blind t p th v a R" "\<And>x. R x \<Longrightarrow> Q x"
  shows "blind t p th v a Q"
  unfolding blind_def
proof (intro allI impI)
  fix s
  assume "apart t p th s"
  from blindD [OF assms(1) this] show "same_outcome t p th v Q (a s) (a (swap p v s))"
    by (cases "a s") (simp_all add: assms(2))
qed

lemma blind_if:
  "(b \<Longrightarrow> blind t p th v x Q) \<Longrightarrow> (\<not> b \<Longrightarrow> blind t p th v y Q) \<Longrightarrow> blind t p th v (if b then x else y) Q"
  by simp

lemma blind_case_option:
  "(z = None \<Longrightarrow> blind t p th v x Q) \<Longrightarrow> (\<And>n. z = Some n \<Longrightarrow> blind t p th v (y n) Q) \<Longrightarrow>
     blind t p th v (case z of None \<Rightarrow> x | Some n \<Rightarrow> y n) Q"
  by (cases z) simp_all

lemmas blind_rules =
  blind_ret_True blind_ret blind_leave blind_bnd blind_stmts blind_cond blind_reads blind_modify blind_if
  blind_case_option

subsection \<open>Pointers and objects of other threads\<close>

lemma um_put_swap:
  "k \<in> um_keys m \<Longrightarrow> l \<noteq> k \<Longrightarrow> um_put l w (um_put k v m) = um_put k v (um_put l w m)"
  unfolding um_put_def um_keys_def by (induction m) auto

lemma um_put_idle: "um_find m k = Some v \<Longrightarrow> um_put k v m = m"
  unfolding um_put_def um_find_def by (induction m) (auto split: if_splits)

lemma um_put_twice: "um_put k v (um_put k w m) = um_put k v m"
  unfolding um_put_def by (induction m) auto

lemma um_erase_put_other:
  "l \<in> um_keys m \<Longrightarrow> k \<noteq> l \<Longrightarrow> um_erase k (um_put l w m) = um_put l w (um_erase k m)"
  unfolding um_put_def um_keys_def um_erase_def by (induction m) auto

lemma um_erase_put_same: "um_erase k (um_put k w m) = um_erase k m"
  unfolding um_put_def um_erase_def by (induction m) auto

lemma blind_threads_at: "u \<noteq> t \<Longrightarrow> blind t p th v (threads_at u) (\<lambda>q. q \<noteq> p)"
  by (auto simp: blind_def threads_at_def apart_def swap_def um.find_put split: option.splits)

lemma blind_deref: "q \<noteq> p \<Longrightarrow> blind t p th v (deref q) (\<lambda>_. True)"
  by (auto simp: blind_def deref_def um.find_put split: option.splits)

lemma blind_store:
  "q \<noteq> p \<Longrightarrow> blind t p th v (modify (\<lambda>s. s\<lparr>heap := um_put q w (heap s)\<rparr>)) (\<lambda>_. True)"
  using um_put_swap [of p _ q w v]
  by (intro blind_modify) (simp add: apart_def swap_def um_find_SomeD)

lemma blind_call_method: "q \<noteq> p \<Longrightarrow> blind t p th v (call_method q f) (\<lambda>_. True)"
  unfolding call_method_def
  by (auto intro!: blind_bnd [OF blind_deref] blind_store split: option.splits)

lemma blind_on_thread: "u \<noteq> t \<Longrightarrow> blind t p th v (on_thread u f) (\<lambda>_. True)"
  unfolding on_thread_def by (auto intro!: blind_bnd [OF blind_threads_at] blind_call_method)

lemma blind_ask_thread: "u \<noteq> t \<Longrightarrow> blind t p th v (ask_thread u f) (\<lambda>_. True)"
  unfolding ask_thread_def by (auto intro!: blind_bnd [OF blind_threads_at] blind_bnd [OF blind_deref])


lemmas blind_objects = blind_threads_at blind_deref blind_call_method blind_on_thread blind_ask_thread

subsection \<open>The functions of the scheduler\<close>

lemma apart_frame [simp]:
  "apart t p th (s\<lparr>sigmask := m\<rparr>) = apart t p th s" "apart t p th (s\<lparr>cerr := e\<rparr>) = apart t p th s"
  "apart t p th (s\<lparr>totalQuantums := i\<rparr>) = apart t p th s" "apart t p th (s\<lparr>itimer := it\<rparr>) = apart t p th s"
  "apart t p th (s\<lparr>live_stacks := l\<rparr>) = apart t p th s"
  by (simp_all add: apart_def)

lemma swap_updates [simp]:
  "(swap p v s)\<lparr>sigmask := m\<rparr> = swap p v (s\<lparr>sigmask := m\<rparr>)"
  "(swap p v s)\<lparr>cerr := e\<rparr> = swap p v (s\<lparr>cerr := e\<rparr>)"
  "(swap p v s)\<lparr>totalQuantums := i\<rparr> = swap p v (s\<lparr>totalQuantums := i\<rparr>)"
  "(swap p v s)\<lparr>itimer := it\<rparr> = swap p v (s\<lparr>itimer := it\<rparr>)"
  "(swap p v s)\<lparr>live_stacks := l\<rparr> = swap p v (s\<lparr>live_stacks := l\<rparr>)"
  "(swap p v s)\<lparr>readyQueue := q\<rparr> = swap p v (s\<lparr>readyQueue := q\<rparr>)"
  "(swap p v s)\<lparr>currentTid := u\<rparr> = swap p v (s\<lparr>currentTid := u\<rparr>)"
  "(swap p v s)\<lparr>pendingDeletionTid := u\<rparr> = swap p v (s\<lparr>pendingDeletionTid := u\<rparr>)"
  "(swap p v s)\<lparr>sleepingThreads := sl\<rparr> = swap p v (s\<lparr>sleepingThreads := sl\<rparr>)"
  "(swap p v s)\<lparr>threads := ts\<rparr> = swap p v (s\<lparr>threads := ts\<rparr>)"
  by (simp_all add: swap_def)

lemma apart_current: "apart t p th s \<Longrightarrow> currentTid s \<noteq> t"
  and apart_pending: "apart t p th s \<Longrightarrow> pendingDeletionTid s \<noteq> t"
  by (simp_all add: apart_def)

lemma blind_print_err: "blind t p th v (print_err msg) (\<lambda>_. True)"
  unfolding print_err_def by (rule blind_modify) simp

lemma blind_check_call: "blind t p th v (check_call c msg) (\<lambda>_. True)"
  unfolding check_call_def by (rule blind_rules blind_print_err | simp)+

lemma blind_signals:
  "blind t p th v blockTimerSignal (\<lambda>_. True)" "blind t p th v unblockTimerSignal (\<lambda>_. True)"
  unfolding blockTimerSignal_def unblockTimerSignal_def
  by (rule blind_rules blind_check_call | simp)+

lemma blind_setupTimer: "blind t p th v setupTimer (\<lambda>_. True)"
  unfolding setupTimer_def Let_def by (rule blind_rules blind_print_err | simp)+

lemma blind_siglongjmp: "blind t p th v (siglongjmp e) Q"
  unfolding siglongjmp_def by (rule blind_rules | simp)+

lemma blind_push_ready: "u \<noteq> t \<Longrightarrow> blind t p th v (push_ready u) (\<lambda>_. True)"
  unfolding push_ready_def by (rule blind_rules | simp add: apart_def q_push_def)+

lemma blind_remove: "blind t p th v (removeFromReadyQueue u) (\<lambda>_. True)"
  unfolding removeFromReadyQueue_def
  by (rule blind_rules blind_signals | simp add: apart_def remove_loop_filter)+

lemma blind_free_stacks: "blind t p th v (free_stacks as) (\<lambda>_. True)"
  by (induction as) (simp, (rule blind_rules | simp)+)

lemma blind_delete_thread: "q \<noteq> p \<Longrightarrow> blind t p th v (delete_thread q) (\<lambda>_. True)"
proof -
  assume q: "q \<noteq> p"
  have e: "blind t p th v (modify (\<lambda>s. s\<lparr>heap := um_erase q (heap s)\<rparr>)) (\<lambda>_. True)"
    using q um_erase_put_other [of p _ q v]
    by (intro blind_modify) (simp add: apart_def swap_def um_find_SomeD)
  have b: "blind t p th v (stmts [free_stacks (Thread_destruct qh),
      modify (\<lambda>s. s\<lparr>heap := um_erase q (heap s)\<rparr>)] (ret ())) (\<lambda>_. True)" for qh
    by (rule blind_rules blind_free_stacks e | simp)+
  show ?thesis
    unfolding blind_def
  proof (intro allI impI)
    fix s
    assume s: "apart t p th s"
    have same: "um_find (heap (swap p v s)) q = um_find (heap s) q" using q by simp
    show "same_outcome t p th v (\<lambda>_. True) (delete_thread q s) (delete_thread q (swap p v s))"
    proof (cases "q = 0 \<or> um_find (heap s) q = None")
      case True
      then show ?thesis using s same by (auto simp: delete_thread_def)
    next
      case False
      then obtain qh where qh: "q \<noteq> 0" "um_find (heap s) q = Some qh" by auto
      then show ?thesis
        unfolding delete_thread_def same using blindD [OF b s] by (simp del: stmts.simps)
    qed
  qed
qed

lemma blind_new_Thread:
  assumes "obj_addr al \<noteq> p"
  shows "blind t p th v (new_Thread al u entry) (\<lambda>q. q \<noteq> p)"
proof -
  have "blind t p th v (modify (\<lambda>s. s\<lparr>heap := um_put (obj_addr al) nt (heap s),
      live_stacks := (if u = 0 then live_stacks s else live_stacks s @ [stack_addr al])\<rparr>)) (\<lambda>_. True)"
    for nt
    using assms um_put_swap [of p _ "obj_addr al" nt v]
    by (intro blind_modify) (simp add: apart_def swap_def um_find_SomeD)
  then have "blind t p th v (case c of Inl msg \<Rightarrow> stmts [print_err msg] (leave (Exit 1))
      | Inr nt \<Rightarrow> stmts [modify (\<lambda>s. s\<lparr>heap := um_put (obj_addr al) nt (heap s),
          live_stacks := (if u = 0 then live_stacks s else live_stacks s @ [stack_addr al])\<rparr>)]
        (ret (obj_addr al))) (\<lambda>q. q \<noteq> p)" for c
    using assms by (cases c) (auto simp del: stmts.simps intro!: blind_stmts blind_print_err)
  then show ?thesis
    unfolding new_Thread_def by (intro blind_cond blind_leave blind_reads) simp_all
qed

lemma blind_threads_put: "u \<noteq> t \<Longrightarrow> q \<noteq> p \<Longrightarrow>
    blind t p th v (modify (\<lambda>s. s\<lparr>threads := um_put u q (threads s)\<rparr>)) (\<lambda>_. True)"
  by (rule blind_modify) (simp add: apart_def)

lemma blind_threads_erase: "u \<noteq> t \<Longrightarrow>
    blind t p th v (modify (\<lambda>s. s\<lparr>threads := um_erase u (threads s)\<rparr>)) (\<lambda>_. True)"
  by (rule blind_modify) (simp add: apart_def um.find_erase)

lemma blind_sleep_erase:
    "blind t p th v (modify (\<lambda>s. s\<lparr>sleepingThreads := um_erase (f s) (sleepingThreads s)\<rparr>)) (\<lambda>_. True)"
  if "\<And>s. f (swap p v s) = f s"
  using that by (intro blind_modify) (simp add: apart_def um.keys_erase)

lemma blind_wake_loop: "t \<notin> um_keys it \<Longrightarrow> blind t p th v (wake_loop it) (\<lambda>_. True)"
proof (induction it)
  case (Cons e it)
  then have e: "fst e \<noteq> t" and it: "blind t p th v (wake_loop it) (\<lambda>_. True)"
    by (auto simp: um_keys_def)
  show ?case
    unfolding wake_loop.simps
    by (rule blind_cond blind_bnd [OF blind_ask_thread] blind_stmts blind_if it e
        blind_on_thread blind_push_ready blind_sleep_erase blind_ret_True | simp)+
qed (simp add: blind_ret_True)

lemma blind_wake: "blind t p th v wakeSleepingThreads (\<lambda>_. True)"
  unfolding wakeSleepingThreads_def
  by (intro blind_reads blind_wake_loop) (simp_all add: apart_def)

text \<open>Taking the next thread from the queue.\<close>

lemma blind_pick: "blind t p th v (cond (\<lambda>s. \<not> q_empty (readyQueue s))
    (stmts [modify (\<lambda>s. s\<lparr>readyQueue := q_pop (readyQueue s), currentTid := q_front (readyQueue s)\<rparr>),
            reads (\<lambda>s. on_thread (currentTid s) (setState RUNNING))] (ret ())) (ret ())) (\<lambda>_. True)"
  (is "blind t p th v ?a _")
  unfolding blind_def
proof (intro allI impI)
  fix s
  assume s: "apart t p th s"
  let ?r = "stmts [reads (\<lambda>s. on_thread (currentTid s) (setState RUNNING))] (ret ())"
  have r: "blind t p th v ?r (\<lambda>_. True)"
    by (rule blind_rules blind_on_thread apart_current | simp)+
  show "same_outcome t p th v (\<lambda>_. True) (?a s) (?a (swap p v s))"
  proof (cases "readyQueue s")
    case Nil
    then show ?thesis using s by (simp add: cond_apply q_empty_def ret_apply)
  next
    case (Cons u q)
    then have "apart t p th (s\<lparr>readyQueue := q, currentTid := u\<rparr>)" using s by (simp add: apart_def)
    from blindD [OF r this] Cons show ?thesis
      by (simp add: cond_apply q_empty_def q_pop_def q_front_def bnd_apply [of "modify _"] modify_apply)
  qed
qed

lemma blind_switch: "blind t p th v (doContextSwitch site) Q"
  unfolding doContextSwitch_def
  by (rule blind_pick | rule blind_rules blind_signals blind_on_thread blind_push_ready blind_setupTimer
      blind_threads_at blind_call_method blind_siglongjmp blind_ask_thread | simp add: apart_current)+

lemma blind_clear_pending:
  "blind t p th v (modify (\<lambda>s. s\<lparr>threads := um_erase (pendingDeletionTid s) (threads s)\<rparr>)) (\<lambda>_. True)"
  "blind t p th v (modify (\<lambda>s. s\<lparr>pendingDeletionTid := -1\<rparr>)) (\<lambda>_. True)"
  by (rule blind_modify, simp add: apart_def um.find_erase)+

lemma blind_switch_return: "blind t p th v switch_return (\<lambda>_. True)"
  unfolding switch_return_def
  by (auto simp del: stmts.simps intro!: blind_cond blind_stmts blind_reads
      blind_bnd [OF blind_threads_at] blind_delete_thread blind_clear_pending blind_signals
      dest: apart_pending)

lemma blind_timerHandler: "blind t p th v (timerHandler m) (\<lambda>_. True)"
  unfolding timerHandler_def by (rule blind_stmts blind_signals blind_wake blind_switch)+

subsection \<open>The calls\<close>

lemma blind_available: "blind t p th v nextAvailableTid (\<lambda>u. u \<noteq> t)"
proof -
  have "available_from (threads s) 0 \<noteq> t" if "apart t p th s" for s
    using available_from_spec [of 0 "threads s"] that by (auto simp: apart_def um.keys_find)
  then show ?thesis
    unfolding nextAvailableTid_def by (intro blind_reads blind_ret) simp_all
qed

lemma blind_spawn:
  assumes "obj_addr al \<noteq> p"
  shows "blind t p th v (spawn al entry) (\<lambda>_. True)"
proof -
  have "blind t p th v (spawn_with al entry u) (\<lambda>_. True)" if "u \<noteq> t" for u
    unfolding spawn_with_def
    by (rule blind_stmts blind_signals blind_bnd [OF blind_new_Thread] blind_threads_put blind_push_ready
        blind_ret_True assms that | assumption)+
  then show ?thesis
    unfolding spawn_def
    by (intro blind_bnd [OF blind_available] blind_if)
      (auto simp del: stmts.simps intro!: blind_stmts blind_print_err)
qed

lemma blind_terminate:
  assumes "u \<noteq> t" "u \<noteq> 0"
  shows "blind t p th v (terminate u) (\<lambda>_. True)"
proof -
  have "blind t p th v (modify (\<lambda>s. s\<lparr>pendingDeletionTid := currentTid s\<rparr>)) (\<lambda>_. True)"
    by (rule blind_modify) (simp add: apart_def)
  moreover have "cond (\<lambda>_. u = 0) a b = b" for a b :: "int act"
    using assms(2) by (simp add: cond_def)
  ultimately show ?thesis
    unfolding terminate_def using assms
    by (auto simp del: stmts.simps intro!: blind_stmts blind_signals blind_cond blind_ask_thread
        blind_bnd [OF blind_ask_thread] blind_remove blind_sleep_erase blind_bnd [OF blind_threads_at]
        blind_delete_thread blind_threads_erase blind_print_err blind_reads blind_on_thread blind_switch
        dest: apart_pending)
qed

lemma blind_block:
  assumes "u \<noteq> t"
  shows "blind t p th v (block u) (\<lambda>_. True)"
  unfolding block_def Let_def using assms
  by (auto simp del: stmts.simps intro!: blind_stmts blind_signals blind_cond blind_if
      blind_bnd [OF blind_threads_at] blind_bnd [OF blind_deref] blind_remove blind_call_method
      blind_print_err blind_switch)

lemma blind_resume:
  assumes "u \<noteq> t"
  shows "blind t p th v (resume u) (\<lambda>_. True)"
  unfolding resume_def using assms
  by (auto simp del: stmts.simps intro!: blind_stmts blind_signals blind_cond blind_if
      blind_bnd [OF blind_threads_at] blind_bnd [OF blind_deref] blind_call_method
      blind_print_err blind_push_ready)

lemma blind_current_at: "blind t p th v (reads (\<lambda>s. threads_at (currentTid s))) (\<lambda>q. q \<noteq> p)"
  by (rule blind_reads) (auto intro: blind_threads_at dest: apart_current)

lemma blind_sleep: "blind t p th v (sleep n) (\<lambda>_. True)"
proof -
  have "blind t p th v (modify (\<lambda>s. s\<lparr>sleepingThreads := um_put (currentTid s) d (sleepingThreads s)\<rparr>))
      (\<lambda>_. True)" for d
    by (rule blind_modify) (simp add: apart_def um.keys_put)
  then show ?thesis
    unfolding sleep_def
    by (auto simp del: stmts.simps intro!: blind_stmts blind_signals blind_cond
        blind_bnd [OF blind_current_at] blind_call_method blind_print_err blind_reads blind_case_option
        blind_leave blind_sleep_erase blind_switch)
qed

lemma blind_getQuantums:
  assumes "u \<noteq> t"
  shows "blind t p th v (getQuantums u) (\<lambda>_. True)"
  unfolding getQuantums_def using assms
  by (auto simp del: stmts.simps intro!: blind_stmts blind_signals blind_cond blind_print_err
      blind_ask_thread)

text \<open>A call that names thread \<open>t\<close>.\<close>

definition names :: "int \<Rightarrow> api_call \<Rightarrow> bool" where
  "names t c \<longleftrightarrow> c = Terminate t \<or> c = Block t \<or> c = Resume t \<or> c = Get_quantums t"

lemma blind_getThreadById: "blind t p th v (getThreadById u) (\<lambda>_. True)"
  if "u \<noteq> t"
  unfolding getThreadById_def using that
  by (auto intro!: blind_cond blind_ret_True blind_weaken [OF blind_threads_at])

lemma blind_api:
  assumes "\<not> names t c" "c \<noteq> Terminate 0" "\<And>q. c \<noteq> Init q" "obj_addr al \<noteq> p"
  shows "blind t p th v (api al c) (\<lambda>_. True)"
proof -
  note calls = uthread_spawn_def uthread_terminate_def uthread_block_def uthread_resume_def
    uthread_sleep_def uthread_get_tid_def uthread_get_total_quantums_def uthread_get_quantums_def
  have g: "blind t p th v getTid (\<lambda>_. True)" "blind t p th v getTotalQuantums (\<lambda>_. True)"
    unfolding getTid_def getTotalQuantums_def by (auto intro!: blind_reads blind_ret_True)
  show ?thesis
    using assms
    by (cases c) (auto simp: names_def calls simp del: stmts.simps intro!: g blind_bnd [OF g(1)]
        blind_bnd [OF blind_getThreadById] blind_stmts blind_print_err blind_spawn blind_terminate
        blind_block blind_resume blind_sleep blind_getQuantums)
qed

subsection \<open>Events and executions\<close>

definition same_result :: "int \<Rightarrow> address \<Rightarrow> thread \<Rightarrow> thread \<Rightarrow> result \<Rightarrow> result \<Rightarrow> bool" where
  "same_result t p th v r r' \<longleftrightarrow> (case r of
     Goes k s \<Rightarrow> apart t p th s \<and> r' = Goes k (swap p v s)
   | Halts e s \<Rightarrow> r' = Halts e (swap p v s))"

lemma arrive_swap: "apart t p th s \<Longrightarrow> same_result t p th v (arrive e s) (arrive e (swap p v s))"
proof (cases e)
  case (Env_switch site m)
  assume "apart t p th s"
  from blindD [OF blind_switch_return this] Env_switch show ?thesis
    by (cases "switch_return s") (auto simp: same_result_def split: call_site.splits)
qed (auto simp: same_result_def)

lemma settle_swap:
  assumes "same_outcome t p th v Q r r'"
  shows "same_result t p th v (settle r) (settle r')"
proof (cases r)
  case (Stop e s)
  then show ?thesis using assms by (cases e) (auto simp: same_result_def intro: arrive_swap [unfolded same_result_def])
qed (use assms in \<open>auto simp: same_result_def\<close>)

lemma tick_swap: "apart t p th s \<Longrightarrow> same_result t p th v (tick s) (tick (swap p v s))"
proof -
  assume s: "apart t p th s"
  have "blind t p th v (bnd (timerHandler m) (\<lambda>_. ret (0 :: int))) (\<lambda>_. True)" for m
    by (rule blind_bnd [OF blind_timerHandler blind_ret_True])
  from blindD [OF this, of "s\<lparr>sigmask := insert SIGVTALRM (sigmask s)\<rparr>"] s show ?thesis
    unfolding tick_def by (intro settle_swap) simp
qed

lemma perform_swap:
  assumes "apart t p th s" "\<not> names t c" "c \<noteq> Terminate 0" "\<And>q. c \<noteq> Init q" "obj_addr al \<noteq> p"
  shows "same_result t p th v (perform al c s) (perform al c (swap p v s))"
  unfolding perform_def by (rule settle_swap [OF blindD [OF blind_api [OF assms(2-5)] assms(1)]])

text \<open>Scripts that leave the thread alone.\<close>

definition leaves_alone :: "int \<Rightarrow> command list \<Rightarrow> bool" where
  "leaves_alone t cmds \<longleftrightarrow> (\<forall>cmd \<in> set cmds. case cmd of Call c \<Rightarrow> \<not> names t c | Tick \<Rightarrow> True)"

lemma legal_command_step:
  assumes "sched_inv s" "legal_command n cmd s" "command_event n cmd s = Goes k u"
  shows "sched_inv u" and "cmd \<noteq> Call (Terminate 0)"
proof -
  have "\<exists>e. lib_step s e u"
    using assms(2,3) by (cases cmd) (auto simp: legal_command_def command_event_def
        intro: lib_step.call lib_step.timer)
  then show "sched_inv u" using lib_step_inv [OF assms(1)] by blast
  show "cmd \<noteq> Call (Terminate 0)"
    using terminate_main [OF sched_invD(3,6) [OF assms(1)]] assms(1,3)
      main_exists [OF sched_invD(1) [OF assms(1)]]
    by (auto simp: command_event_def perform_def uthread_terminate_known)
qed

lemma command_swap:
  assumes "sched_inv s" "legal_command n cmd s" "command_event n cmd s = Goes k u"
    and "apart t p th s" "leaves_alone t [cmd]"
  shows "apart t p th u \<and> command_event n cmd (swap p v s) = Goes k (swap p v u)"
proof (cases cmd)
  case Tick
  then show ?thesis
    using tick_swap [OF assms(4), of v] assms(3) by (simp add: command_event_def same_result_def)
next
  case (Call c)
  have "obj_addr (memory n) \<noteq> p"
    using assms(2,4) Call by (auto simp: legal_command_def alloc_ok_def apart_def um_find_SomeD)
  moreover have "c \<noteq> Init q" for q
    using assms(2) Call by (auto simp: legal_command_def allowed_def)
  ultimately show ?thesis
    using perform_swap [OF assms(4), of c "memory n" v] legal_command_step(2) [OF assms(1-3)] assms(3,5) Call
    by (auto simp: command_event_def same_result_def leaves_alone_def)
qed

lemma play_swap:
  assumes "sched_inv s" "legal n cmds s" "apart t p th s" "leaves_alone t cmds"
  shows "\<exists>k u. play n cmds s = Goes k u \<and> play n cmds (swap p v s) = Goes k (swap p v u)
    \<and> apart t p th u \<and> sched_inv u"
  using assms
proof (induction n cmds s rule: play.induct)
  case (2 n cmd s)
  then obtain k u where u: "command_event n cmd s = Goes k u" by (auto split: result.splits)
  then show ?case
    using command_swap [of s n cmd k u t p th v] legal_command_step(1) [of s n cmd k u] 2 by simp
next
  case (3 n cmd cmd' cmds s)
  then obtain k u where u: "command_event n cmd s = Goes k u" "legal (Suc n) (cmd' # cmds) u"
    by (auto split: result.splits)
  have "legal_command n cmd s" "leaves_alone t [cmd]" "leaves_alone t (cmd' # cmds)"
    using "3.prems" by (simp_all add: leaves_alone_def)
  then show ?case
    using command_swap [of s n cmd k u t p th v] legal_command_step(1) [of s n cmd k u] "3.IH" [OF u(1)]
      "3.prems" u by simp
qed simp

end
