(* ===== verification/Windows.thy ===== *)
theory Windows
  imports Interrupts Bystanders Safety
begin

section \<open>Harmless interruptions\<close>

text \<open>
  The other side of \<open>Interrupts\<close>: an interruption in which no call names the thread the
  interrupted call is about does no harm.  In the middle of \<open>terminate\<close> or \<open>block\<close> the thread is
  READY and in no queue, which the invariant does not allow; but the rest of the library is blind
  to its object (\<open>Bystanders\<close>), so it does what it would do if the thread were blocked already.
\<close>

subsection \<open>The thread in the middle of the call\<close>

lemma drop_thread_forgets:
  assumes "\<And>th. stack (f th) = stack th"
  shows "drop_thread t (upd_th t f s) = drop_thread t s"
proof (cases "table s t")
  case None
  then show ?thesis by (auto simp: upd_th_def table_def split: option.splits)
next
  case (Some th)
  then obtain p where "um_find (threads s) t = Some p" "um_find (heap s) p = Some th"
    by (rule table_SomeE)
  then show ?thesis using assms by (simp add: upd_th_def drop_thread_def um_erase_put_same)
qed

text \<open>The state and the mark it has before the call.\<close>

definition unmark :: "thread \<Rightarrow> thread" where
  "unmark th = th\<lparr>state := READY, didUserBlock := False\<rparr>"

definition marked :: "thread \<Rightarrow> thread" where
  "marked th = th\<lparr>state := BLOCKED, didUserBlock := True\<rparr>"

lemma unmark_marked: "state th = READY \<Longrightarrow> \<not> didUserBlock th \<Longrightarrow> unmark (marked th) = th"
  by (simp add: unmark_def marked_def)

lemma swap_upd_th:
  "um_find (threads s) t = Some p \<Longrightarrow> um_find (heap s) p = Some th \<Longrightarrow> upd_th t f s = swap p (f th) s"
  by (simp add: upd_th_def swap_def)

lemma mid_call:
  assumes "um_find (threads s) t = Some p" "um_find (heap s) p = Some th"
  shows "s\<lparr>readyQueue := filter (\<lambda>x. x \<noteq> t) (readyQueue s), sigmask := sigmask s - {SIGVTALRM}\<rparr>
      = swap p th (blocked_state t s)"
    and "um_find (threads (blocked_state t s)) t = Some p"
    and "um_find (heap (blocked_state t s)) p = Some (marked th)"
  using assms
  by (simp_all add: blocked_state_def swap_upd_th marked_def swap_def um_put_twice um_put_idle)

lemma begin_eval:
  assumes "failing s = []" "um_find (threads s) t = Some p" "um_find (heap s) p = Some th" "state th = READY"
  shows "block_begin t s = Done p (swap p th (blocked_state t s))"
    and "terminate_begin t s = Done () (swap p th (blocked_state t s))"
proof -
  have "table s t = Some th" using assms(2,3) by (simp add: table_def)
  then show "block_begin t s = Done p (swap p th (blocked_state t s))"
    "terminate_begin t s = Done () (swap p th (blocked_state t s))"
    using assms mid_call(1) [OF assms(2,3)]
    by (simp_all add: block_begin_def terminate_begin_def act_simps)
qed

text \<open>Once it is blocked the thread is apart from everything else.\<close>

lemma apart_blocked:
  assumes inv: "sched_inv s" and p: "um_find (threads s) t = Some p" "um_find (heap s) p = Some th"
    and th: "state th = READY" "\<not> terminated th" and t: "t \<notin> sleepers s"
  shows "apart t p (marked th) (blocked_state t s)" and "t \<noteq> currentTid s"
proof -
  note d = sched_invD [OF inv]
  have tab: "table s t = Some th" using p by (simp add: table_def)
  obtain c where "table s (currentTid s) = Some c" "state c = RUNNING"
    by (rule sched_inv_current [OF inv])
  with tab th(1) show cur: "t \<noteq> currentTid s" by auto
  have "t \<noteq> -1" using table_tids [OF tab] d(10) by auto
  moreover have "t \<noteq> pendingDeletionTid s"
    using d(2) tab th(2) \<open>t \<noteq> -1\<close> by (auto simp: pend_ok_def)
  moreover have "p \<noteq> 0" using owned_nonnull [OF d(4), of t] p(1) by auto
  moreover have "um_find (threads s) u \<noteq> Some p" if "u \<noteq> t" for u
    using d(4) p(1) that unfolding owned_def by metis
  ultimately show "apart t p (marked th) (blocked_state t s)"
    using cur t mid_call(2,3) [OF p] by (auto simp: apart_def blocked_state_def sleepers_def)
qed

subsection \<open>The second parts\<close>

lemma block_end_eval:
  assumes ok: "failing u = []" and a: "apart t p (marked th) u" and en: "tick_enabled u"
  shows "block_end p (swap p th u) = Done 0 u"
proof -
  have p: "um_find (heap u) p = Some (marked th)" using a by (simp add: apart_def)
  have m: "sigmask u - {SIGVTALRM} = sigmask u" using en by (simp add: tick_enabled_def)
  have "setBlockFlag True (setState BLOCKED th) = marked th"
    by (simp add: setState_def setBlockFlag_def marked_def)
  then have "block_end p (swap p th u) = Done 0 ((swap p (marked th) u)\<lparr>sigmask := sigmask u - {SIGVTALRM}\<rparr>)"
    using ok
    by (simp add: block_end_def call_method_def act_simps swap_def um_put_twice)
  then show ?thesis using p by (simp add: m swap_def um_put_idle)
qed

lemma terminate_end_eval:
  assumes inv: "sched_inv u" and a: "apart t p (marked th) u" and t: "t \<noteq> 0"
    and th: "state th = READY" "\<not> didUserBlock th"
  shows "terminate_end t (swap p th u) = Done 0 (removed_state t u)"
proof -
  note i = sched_invD [OF inv]
  have p: "um_find (threads u) t = Some p" "um_find (heap u) p = Some (marked th)"
    and ap: "currentTid u \<noteq> t" "t \<notin> set (readyQueue u)" using a by (simp_all add: apart_def)
  have sw: "swap p th u = upd_th t unmark u" using p th by (simp add: swap_upd_th unmark_marked)
  let ?a = "(upd_th t unmark u)\<lparr>sleepingThreads := um_erase t (sleepingThreads u)\<rparr>"
  have "stacks_ok (upd_th t unmark u)" by (rule stacks_ok_upd_th) (use i in \<open>simp_all add: unmark_def\<close>)
  then have "mem_inv ?a" using i(4) by (simp add: mem_inv_def owned_sleeping owned_um_ok)
  moreover have "t \<in> tids u" using p(1) by (simp add: tids_def um_find_SomeD)
  ultimately have del: "bnd (threads_at t) delete_thread ?a = Done () ((drop_thread t ?a)\<lparr>threads := threads ?a\<rparr>)"
    "threads (drop_thread t ?a) = um_erase t (threads ?a)"
    using delete_thread_eval [of ?a t] t by simp_all
  have "drop_thread t (upd_th t unmark u) = drop_thread t u"
    by (rule drop_thread_forgets) (simp add: unmark_def)
  then show ?thesis
    unfolding sw using ap i(6) del filter_neq_idem [OF ap(2)]
    by (simp add: terminate_end_def act_simps removed_state_def stmts_step bnd_apply)
qed

text \<open>An interruption in which nobody names the thread does no harm.  When \<open>block\<close> or
  \<open>terminate\<close> of a READY thread is interrupted behind \<open>removeFromReadyQueue\<close> and other threads run
  in between, for any number of ticks and with any permitted calls that are not about that thread,
  the outcome is the one of calls that are not interrupted: the interrupted \<open>block\<close> leaves the
  same state as \<open>block\<close> followed by what the others do, the interrupted \<open>terminate\<close> the same state
  as \<open>block\<close>, what the others do, and then \<open>terminate\<close>.  The thread must not be in the sleeping
  table.\<close>

lemma interruption_is_harmless:
  assumes "reachable s" "table s t = Some th" "state th = READY" "\<not> didUserBlock th"
    "\<not> terminated th" "t \<noteq> 0" "t \<notin> sleepers s"
    and w: "perform al (Block t) s = Goes c w"
    and others: "legal n others w" "leaves_alone t others" "play n others w = Goes k u" "tick_enabled u"
  shows "between (block_begin t) n others block_end s = Goes (Returns 0) u
    \<and> (\<exists>v. perform al' (Terminate t) u = Goes (Returns 0) v
         \<and> between (terminate_begin t) n others (\<lambda>_. terminate_end t) s = Goes (Returns 0) v
         \<and> sched_inv v)
    \<and> sched_inv u"
proof -
  note inv = reachable_inv [OF assms(1)]
  note d = sched_invD [OF inv]
  obtain p where p: "um_find (threads s) t = Some p" "um_find (heap s) p = Some th"
    using assms(2) by (rule table_SomeE)
  note b = begin_eval [OF d(6) p assms(3)]
  have ap: "apart t p (marked th) (blocked_state t s)" and cur: "t \<noteq> currentTid s"
    by (rule apart_blocked [OF inv p assms(3,5,7)])+
  have "w = blocked_state t s"
    using w block_ready [OF d(6,4) assms(2,4,3)] uthread_block_known [OF inv table_tids [OF assms(2)] assms(6)]
    by (simp add: perform_def)
  moreover have "sched_inv (blocked_state t s)"
    by (rule blocked_state_inv [OF inv assms(2) cur assms(6)])
  ultimately have u: "play n others (swap p th (blocked_state t s)) = Goes k (swap p th u)"
      "apart t p (marked th) u" "sched_inv u"
    using play_swap [OF _ _ ap others(2), of n th] others(1,3) by auto
  have i: "t \<in> tids u" "t \<noteq> currentTid u" "t \<noteq> pendingDeletionTid u"
    using u(2) by (auto simp: apart_def tids_def um_find_SomeD)
  have "perform al' (Terminate t) u = Goes (Returns 0) (removed_state t u)"
    using terminate_other [OF u(3) i(1) assms(6) i(2)] uthread_terminate_known [OF u(3) i(1)]
    by (simp add: perform_def)
  moreover have "between (block_begin t) n others block_end s = Goes (Returns 0) u"
    using u(1) block_end_eval [OF sched_invD(6) [OF u(3)] u(2) others(4)] by (simp add: between_def b)
  moreover have "between (terminate_begin t) n others (\<lambda>_. terminate_end t) s
      = Goes (Returns 0) (removed_state t u)"
    using u(1) terminate_end_eval [OF u(3,2) assms(6,3,4)] by (simp add: between_def b)
  ultimately show ?thesis using u(3) removed_state_inv [OF u(3) assms(6) i(2,3)] by blast
qed

subsection \<open>A call that only reads before the interruption\<close>

text \<open>\<open>resume\<close> of a blocked thread goes on with the pointer and the state it has read; they are
  still true as long as nobody names the thread.\<close>

lemma resume_interruption_is_harmless:
  assumes "sched_inv s" "apart t p th s" "state th = BLOCKED" "0 \<le> t"
    and others: "legal n others s" "leaves_alone t others" "play n others s = Goes k u"
  shows "between (resume_begin t) n others (resume_end t) s = settle (resume t u)"
proof -
  have p: "um_find (threads s) t = Some p" "um_find (heap s) p = Some th"
    using assms(2) by (simp_all add: apart_def)
  have "apart t p th u" using play_swap [OF assms(1) others(1) assms(2) others(2)] others(3) by auto
  then have "resume_end t p u = resume t u"
    using assms(3,4) by (intro resume_end_late) (simp_all add: apart_def)
  then show ?thesis
    using p others(3) by (simp add: between_def resume_begin_def threads_at_def deref_def act_simps)
qed

end
