(* ===== verification/Interleaving.thy ===== *)
theory Interleaving
  imports Windows Accounting
begin

section \<open>Interrupted calls, any number of them at once\<close>

text \<open>
  Executions in which a call can be interrupted where the code lets the timer signal through, and
  goes on when its thread runs again; meanwhile other threads run, and their calls can be
  interrupted as well.  As long as nobody interferes with a call that is under way, such an
  execution reaches no state that uninterrupted calls do not reach.
\<close>

subsection \<open>Memory for one more thread\<close>

lemma fresh_allocation:
  assumes inv: "sched_inv s"
  shows "\<exists>al. alloc_ok al s"
proof -
  note d = sched_invD [OF inv]
  let ?A = "um_keys (heap s)" and ?B = "set (live_stacks s)"
  have fin: "finite (tids s)" and le: "card (tids s) \<le> 100"
    using card_mono [OF _ d(10)] by (auto simp: tids_def MAX_THREAD_NUM_def)
  have small: "card S \<le> 100" if "S \<subseteq> f ` tids s" for S and f :: "int \<Rightarrow> address"
  proof -
    have "card S \<le> card (f ` tids s)" by (rule card_mono [OF finite_imageI [OF fin] that])
    also have "\<dots> \<le> card (tids s)" by (rule card_image_le [OF fin])
    finally show ?thesis using le by simp
  qed
  have "?A \<subseteq> (\<lambda>t. the (um_find (threads s) t)) ` tids s"
  proof
    fix p
    assume "p \<in> ?A"
    then obtain t where "um_find (threads s) t = Some p" using d(4) unfolding owned_def by blast
    then show "p \<in> (\<lambda>t. the (um_find (threads s) t)) ` tids s"
      by (intro image_eqI [of _ _ t]) (simp_all add: tids_def um_find_SomeD)
  qed
  then have A: "card ?A \<le> 100" by (rule small)
  have "?B \<subseteq> (\<lambda>t. stack (the (table s t))) ` tids s"
  proof
    fix b
    assume "b \<in> ?B"
    then obtain t th where "table s t = Some th" "stack th = b"
      using d(5) unfolding stacks_ok_def by blast
    then show "b \<in> (\<lambda>t. stack (the (table s t))) ` tids s"
      by (intro image_eqI [of _ _ t]) (simp_all add: table_tids)
  qed
  then have B: "card ?B \<le> 100" by (rule small)
  have "\<exists>x :: 64 word. x \<notin> insert 0 S" if "finite S" "card S \<le> 100" for S
  proof -
    have "card (insert 0 S) \<le> 101" using that by (simp add: card_insert_if)
    then have "insert 0 S \<noteq> UNIV" by (auto simp: card_word)
    then show ?thesis by blast
  qed
  from this [of ?A] this [of ?B] A B obtain x y where "x \<notin> insert 0 ?A" "y \<notin> insert 0 ?B"
    by (auto simp: um.finite_keys)
  then have "alloc_ok \<lparr>obj_addr = x, stack_addr = y\<rparr> s" by (simp add: alloc_ok_def)
  then show ?thesis by blast
qed

subsection \<open>Calls that are under way\<close>

text \<open>What an interrupted call still has in its local variables.\<close>

datatype pending =
    In_block int address
  | In_terminate int
  | In_resume int address
  | In_spawn allocation address int
  | In_getQuantums int

text \<open>A call up to the interruption, and the rest of it.\<close>

definition begin_call :: "allocation \<Rightarrow> api_call \<Rightarrow> pending act" where
  "begin_call al c = (case c of
     Block t \<Rightarrow> bnd (block_begin t) (\<lambda>p. ret (In_block t p))
   | Terminate t \<Rightarrow> bnd (terminate_begin t) (\<lambda>_. ret (In_terminate t))
   | Resume t \<Rightarrow> bnd (resume_begin t) (\<lambda>p. ret (In_resume t p))
   | Spawn entry \<Rightarrow> bnd nextAvailableTid (\<lambda>t. ret (In_spawn al entry t))
   | Get_quantums t \<Rightarrow> bnd getQuantums_begin (\<lambda>_. ret (In_getQuantums t)))"

fun end_call :: "pending \<Rightarrow> int act" where
  "end_call (In_block t p) = block_end p"
| "end_call (In_terminate t) = terminate_end t"
| "end_call (In_resume t p) = resume_end t p"
| "end_call (In_spawn al entry t) = spawn_with al entry t"
| "end_call (In_getQuantums t) = getQuantums_end t"

text \<open>The calls, on the branches on which they have these two parts.\<close>

definition ready_target :: "machine \<Rightarrow> int \<Rightarrow> bool" where
  "ready_target s t \<longleftrightarrow> t \<noteq> 0 \<and> t \<notin> sleepers s \<and> (case table s t of
     Some th \<Rightarrow> state th = READY \<and> \<not> didUserBlock th \<and> \<not> terminated th | None \<Rightarrow> False)"

definition divisible :: "machine \<Rightarrow> api_call \<Rightarrow> bool" where
  "divisible s c \<longleftrightarrow> (case c of
     Block t \<Rightarrow> ready_target s t
   | Terminate t \<Rightarrow> ready_target s t
   | Resume t \<Rightarrow> blocked_in s t
   | Spawn entry \<Rightarrow> entry \<noteq> 0 \<and> free_tid s \<noteq> -1
   | Get_quantums t \<Rightarrow> table s t \<noteq> None
   | _ \<Rightarrow> False)"

lemma ready_targetE:
  assumes "ready_target s t"
  obtains th where "table s t = Some th" "state th = READY" "\<not> didUserBlock th" "\<not> terminated th"
    "t \<noteq> 0" "t \<notin> sleepers s"
  using assms by (auto simp: ready_target_def split: option.splits)

lemma call_parts:
  assumes inv: "sched_inv s" and c: "divisible s c"
  shows "api al c s = bnd (begin_call al c) end_call s"
proof (cases c)
  case (Block t)
  then obtain th where th: "table s t = Some th" "state th = READY" "\<not> didUserBlock th" "t \<noteq> 0"
    using c by (auto simp: divisible_def elim: ready_targetE)
  show ?thesis
    using block_parts [OF th(1-3)] uthread_block_known [OF inv table_tids [OF th(1)] th(4)]
    by (simp add: Block begin_call_def bnd_apply ret_apply split: outcome.splits)
next
  case (Terminate t)
  then obtain th where th: "table s t = Some th" "t \<noteq> 0"
    using c by (auto simp: divisible_def elim: ready_targetE)
  show ?thesis
    using terminate_parts [OF th(2)] uthread_terminate_known [OF inv table_tids [OF th(1)]]
    by (simp add: Terminate begin_call_def bnd_apply ret_apply split: outcome.splits)
next
  case (Resume t)
  then obtain th where th: "table s t = Some th" "state th = BLOCKED"
    using c by (auto simp: divisible_def blocked_in_def split: option.splits)
  show ?thesis
    using resume_parts [OF th] tid_range [OF inv table_tids [OF th(1)]]
      uthread_resume_known [OF inv table_tids [OF th(1)]]
    by (simp add: Resume begin_call_def bnd_apply ret_apply split: outcome.splits)
next
  case (Spawn entry)
  then show ?thesis
    using c spawn_parts [of s al entry]
    by (simp add: divisible_def begin_call_def uthread_spawn_def free_tid_def bnd_apply ret_apply
        split: outcome.splits)
next
  case (Get_quantums t)
  then have "um_count (threads s) t \<noteq> 0"
    using c table_tids [of s t] by (auto simp: divisible_def tids_def)
  then show ?thesis
    using getQuantums_parts [OF sched_invD(6) [OF inv], of t] Get_quantums
    by (simp add: begin_call_def uthread_get_quantums_def bnd_apply ret_apply split: outcome.splits)
qed (use c in \<open>simp_all add: divisible_def\<close>)

text \<open>What has been read must still be true when the call goes on.\<close>

fun still :: "pending \<Rightarrow> machine \<Rightarrow> bool" where
  "still (In_resume t p) s \<longleftrightarrow> um_find (threads s) t = Some p \<and> blocked_in s t \<and> \<not> terminated_in s t"
| "still (In_spawn al entry t) s \<longleftrightarrow> free_tid s = t \<and> alloc_ok al s"
| "still (In_getQuantums t) s \<longleftrightarrow> table s t \<noteq> None"
| "still _ s \<longleftrightarrow> True"

text \<open>The thread that is READY in no queue while the call is under way.\<close>

fun target :: "pending \<Rightarrow> int set" where
  "target (In_block t p) = {t}"
| "target (In_terminate t) = {t}"
| "target _ = {}"

type_synonym in_flight_calls = "int \<Rightarrow> pending option"

definition targets :: "in_flight_calls \<Rightarrow> int set" where
  "targets f = {t. \<exists>c x. f c = Some x \<and> t \<in> target x}"

text \<open>
  Nobody interferes: no call names the target of a call that is under way, nobody terminates a
  thread in the middle of a call, and the process goes on.
\<close>

definition polite :: "in_flight_calls \<Rightarrow> api_call \<Rightarrow> bool" where
  "polite f c \<longleftrightarrow> c \<noteq> Terminate 0 \<and> (\<forall>t \<in> targets f. \<not> names t c)
     \<and> (\<forall>t. c = Terminate t \<longrightarrow> f t = None)"

datatype fine_event = Whole event | Begins api_call | Finishes pending control

inductive fine_step :: "machine \<times> in_flight_calls \<Rightarrow> fine_event \<Rightarrow> machine \<times> in_flight_calls \<Rightarrow> bool"
where
  whole: "lib_step s e t \<Longrightarrow> (\<And>c k. e = Called c k \<Longrightarrow> f (currentTid s) = None \<and> polite f c) \<Longrightarrow>
     fine_step (s, f) (Whole e) (t, f)"
| begins: "f (currentTid s) = None \<Longrightarrow> polite f c \<Longrightarrow> divisible s c \<Longrightarrow> allowed s c \<Longrightarrow>
     tick_enabled s \<Longrightarrow> totalQuantums s < INT_MAX \<Longrightarrow> begin_call al c s = Done x t \<Longrightarrow>
     fine_step (s, f) (Begins c) (t, f(currentTid s \<mapsto> x))"
| finishes: "f (currentTid s) = Some x \<Longrightarrow> still x s \<Longrightarrow> tick_enabled s \<Longrightarrow>
     totalQuantums s < INT_MAX \<Longrightarrow> settle (end_call x s) = Goes k t \<Longrightarrow>
     fine_step (s, f) (Finishes x k) (t, f(currentTid s := None))"

inductive_cases fine_stepE: "fine_step (s, f) e (t, g)"

definition fine_start :: "machine \<times> in_flight_calls \<Rightarrow> bool" where
  "fine_start x \<longleftrightarrow> lib_start (fst x) \<and> snd x = Map.empty"

lemma targets_empty [simp]: "targets Map.empty = {}"
  by (simp add: targets_def)

lemma targets_insert: "f c = None \<Longrightarrow> targets (f(c \<mapsto> x)) = targets f \<union> target x"
  unfolding targets_def by (auto split: if_splits) (metis option.distinct(1))

lemma targets_erase:
  assumes "f c = Some x" "\<And>d y. d \<noteq> c \<Longrightarrow> f d = Some y \<Longrightarrow> target x \<inter> target y = {}"
  shows "targets (f(c := None)) = targets f - target x"
proof (rule set_eqI)
  fix t
  show "t \<in> targets (f(c := None)) \<longleftrightarrow> t \<in> targets f - target x"
    using assms unfolding targets_def mem_Collect_eq Diff_iff
    by (metis IntI empty_iff fun_upd_apply option.discI option.inject)
qed

subsection \<open>Several objects in the middle of a call\<close>

text \<open>The objects that the calls under way have not yet marked as blocked.\<close>

type_synonym overlay = "(int \<times> address \<times> thread) list"

definition swaps :: "overlay \<Rightarrow> machine \<Rightarrow> machine" where
  "swaps L s = fold (\<lambda>(t, p, v). swap p v) L s"

definition in_flight :: "overlay \<Rightarrow> machine \<Rightarrow> bool" where
  "in_flight L s \<longleftrightarrow> distinct (map fst L) \<and> (\<forall>(t, p, v) \<in> set L. apart t p (marked v) s
     \<and> state v = READY \<and> \<not> didUserBlock v)"

lemma swaps_simps [simp]:
  "swaps [] s = s" "swaps ((t, p, v) # L) s = swaps L (swap p v s)"
  by (simp_all add: swaps_def)

lemma swaps_frame [simp]:
  "threads (swaps L s) = threads s" "readyQueue (swaps L s) = readyQueue s"
  "sleepingThreads (swaps L s) = sleepingThreads s" "totalQuantums (swaps L s) = totalQuantums s"
  "currentTid (swaps L s) = currentTid s" "pendingDeletionTid (swaps L s) = pendingDeletionTid s"
  "sigmask (swaps L s) = sigmask s" "handler_installed (swaps L s) = handler_installed s"
  "failing (swaps L s) = failing s" "live_stacks (swaps L s) = live_stacks s"
  by (induction L arbitrary: s) (auto simp: swaps_def)

lemma swaps_derived [simp]:
  "sleepers (swaps L s) = sleepers s" "tids (swaps L s) = tids s" "free_tid (swaps L s) = free_tid s"
  "tick_enabled (swaps L s) = tick_enabled s"
  by (simp_all add: sleepers_def tids_def free_tid_def tick_enabled_def)

lemma swaps_updates:
  "swaps L (s\<lparr>readyQueue := q, sigmask := m\<rparr>) = (swaps L s)\<lparr>readyQueue := q, sigmask := m\<rparr>"
  "swaps L (s\<lparr>threads := ts, sleepingThreads := sl\<rparr>) = (swaps L s)\<lparr>threads := ts, sleepingThreads := sl\<rparr>"
proof (induction L arbitrary: s)
  case (Cons x L)
  case 1
  from Cons.IH(1) show ?case
    by (cases x) (metis swaps_simps(2) swap_updates(1,6))
next
  case (Cons x L)
  case 2
  from Cons.IH(2) show ?case
    by (cases x) (metis swaps_simps(2) swap_updates(9,10))
qed simp_all

lemma apart_swap: "q \<noteq> p \<Longrightarrow> apart t p th (swap q v s) = apart t p th s"
  by (simp add: apart_def)

lemma apart_pointers: "apart t p th s \<Longrightarrow> apart u q uh s \<Longrightarrow> t \<noteq> u \<Longrightarrow> p \<noteq> q"
  unfolding apart_def by metis

lemma in_flight_Cons:
  "in_flight ((t, p, v) # L) s \<longleftrightarrow> t \<notin> fst ` set L \<and> apart t p (marked v) s \<and> state v = READY
     \<and> \<not> didUserBlock v \<and> in_flight L s"
  by (auto simp: in_flight_def)

lemma in_flight_swap:
  assumes "apart t p th s" "t \<notin> fst ` set L"
  shows "in_flight L (swap p v s) = in_flight L s"
proof -
  have "apart u q uh (swap p v s) = apart u q uh s" if "(u, q, w) \<in> set L" for u q uh w
  proof (cases "q = p")
    case True
    have "u \<noteq> t" using that assms(2) by force
    then have "\<not> apart u q uh s" "\<not> apart u q uh (swap p v s)"
      using True assms(1) unfolding apart_def by (metis swap_frame(1))+
    then show ?thesis by simp
  next
    case False
    then show ?thesis using apart_swap [of p q] by simp
  qed
  then show ?thesis unfolding in_flight_def by fastforce
qed

text \<open>What happens next does not depend on them.\<close>

lemma event_swaps:
  assumes "in_flight L s"
    and "\<And>t p v x. (t, p, v) \<in> set L \<Longrightarrow> apart t p (marked v) x \<Longrightarrow>
      same_result t p (marked v) v (F x) (F (swap p v x))"
  shows "case F s of Goes k u \<Rightarrow> in_flight L u \<and> F (swaps L s) = Goes k (swaps L u)
    | Halts e u \<Rightarrow> \<exists>w. F (swaps L s) = Halts e w"
  using assms
proof (induction L arbitrary: s)
  case Nil
  then show ?case by (simp add: in_flight_def split: result.splits)
next
  case (Cons x L)
  obtain t p v where x: "x = (t, p, v)" by (cases x)
  have h: "t \<notin> fst ` set L" "apart t p (marked v) s" "state v = READY" "\<not> didUserBlock v" "in_flight L s"
    using Cons.prems(1) by (auto simp: x in_flight_Cons)
  have sr: "same_result t p (marked v) v (F s) (F (swap p v s))"
    using Cons.prems(2) [of t p v] h(2) by (simp add: x)
  have L: "in_flight L (swap p v s)" using h by (simp add: in_flight_swap)
  note ih = Cons.IH [OF L Cons.prems(2)]
  show ?case
  proof (cases "F s")
    case (Goes k u)
    then have "apart t p (marked v) u" "F (swap p v s) = Goes k (swap p v u)"
      using sr by (simp_all add: same_result_def)
    with ih h(1,3,4) Goes show ?thesis by (simp add: x in_flight_Cons in_flight_swap)
  next
    case (Halts e u)
    then show ?thesis using sr ih by (simp add: x same_result_def)
  qed
qed

lemma table_swaps:
  assumes "in_flight L s" "u \<notin> fst ` set L"
  shows "table (swaps L s) u = table s u"
  using assms
proof (induction L arbitrary: s)
  case (Cons x L)
  obtain t p v where x: "x = (t, p, v)" by (cases x)
  then have "apart t p (marked v) s" "t \<notin> fst ` set L" "in_flight L s" "u \<noteq> t" "u \<notin> fst ` set L"
    using Cons.prems by (auto simp: in_flight_Cons)
  moreover have "table (swap p v s) u = table s u"
    using calculation(1,4) by (auto simp: table_def apart_def split: option.splits)
  ultimately show ?case using Cons.IH [of "swap p v s"] by (simp add: x in_flight_swap)
qed simp

lemma heap_swaps: "in_flight L s \<Longrightarrow> um_keys (heap (swaps L s)) = um_keys (heap s)"
proof (induction L arbitrary: s)
  case (Cons x L)
  obtain t p v where x: "x = (t, p, v)" by (cases x)
  then have "apart t p (marked v) s" "t \<notin> fst ` set L" "in_flight L s"
    using Cons.prems by (auto simp: in_flight_Cons)
  then show ?case
    using Cons.IH [of "swap p v s"]
    by (auto simp: x in_flight_swap um.keys_put apart_def um_find_SomeD)
qed simp

text \<open>One of them can be looked at first.\<close>

definition others :: "int \<Rightarrow> overlay \<Rightarrow> overlay" where
  "others t L = filter (\<lambda>e. fst e \<noteq> t) L"

lemma swaps_pick:
  assumes "in_flight L s" "(t, p, v) \<in> set L"
  shows "swaps L s = swaps (others t L) (swap p v s)"
  using assms
proof (induction L arbitrary: s)
  case (Cons x L)
  obtain u q w where x: "x = (u, q, w)" by (cases x)
  have h: "u \<notin> fst ` set L" "apart u q (marked w) s" "in_flight L s"
    using Cons.prems(1) by (auto simp: x in_flight_Cons)
  show ?case
  proof (cases "t = u")
    case True
    then have "(t, p, v) \<notin> set L" using h(1) by force
    moreover have "others u L = L" unfolding others_def using h(1) by (force intro: filter_True)
    ultimately show ?thesis using Cons.prems(2) True by (simp add: x others_def)
  next
    case False
    then have tin: "(t, p, v) \<in> set L" using Cons.prems(2) by (simp add: x)
    then have ap: "apart t p (marked v) s" using h(3) by (auto simp: in_flight_def)
    have pq: "p \<noteq> q" using apart_pointers [OF ap h(2) False] .
    then have "swap p v (swap q w s) = swap q w (swap p v s)"
      using ap um_put_swap [of p "heap s" q w v] by (simp add: swap_def apart_def um_find_SomeD)
    then show ?thesis
      using Cons.IH [of "swap q w s"] tin h False by (simp add: x in_flight_swap others_def)
  qed
qed simp

lemma others_in_flight:
  assumes "in_flight L s" "(t, p, v) \<in> set L"
  shows "in_flight (others t L) s" "in_flight (others t L) (swap p v s)"
    and "fst ` set (others t L) = fst ` set L - {t}"
proof -
  show o: "in_flight (others t L) s"
    using assms(1) by (auto simp: in_flight_def others_def distinct_map_filter)
  show f: "fst ` set (others t L) = fst ` set L - {t}" by (auto simp: others_def)
  have "apart t p (marked v) s" using assms by (auto simp: in_flight_def)
  then show "in_flight (others t L) (swap p v s)" using o f by (simp add: in_flight_swap)
qed

subsection \<open>The uninterrupted execution beside it\<close>

lemma alloc_swaps: "in_flight L a \<Longrightarrow> alloc_ok al (swaps L a) = alloc_ok al a"
  by (simp add: alloc_ok_def heap_swaps)

lemma in_swaps: "in_flight L a \<Longrightarrow> t \<notin> fst ` set L \<Longrightarrow>
    terminated_in (swaps L a) t = terminated_in a t \<and> blocked_in (swaps L a) t = blocked_in a t"
  by (simp add: terminated_in_def blocked_in_def table_swaps)

lemma allowed_swaps:
  assumes "in_flight L a" "\<forall>t \<in> fst ` set L. \<not> names t c"
  shows "allowed (swaps L a) c = allowed a c"
proof (cases c)
  case (Resume t)
  then have "t \<notin> fst ` set L" using assms(2) by (auto simp: names_def)
  then show ?thesis using in_swaps [OF assms(1)] Resume by (simp add: allowed_def)
qed (simp_all add: allowed_def)

lemma fresh_pointer:
  assumes "in_flight L a" "alloc_ok al a" "(t, p, v) \<in> set L"
  shows "obj_addr al \<noteq> p"
  using assms by (force simp: in_flight_def apart_def alloc_ok_def um_find_SomeD)

text \<open>A whole call is made in both executions, with the same result.\<close>

lemma perform_swaps:
  assumes L: "in_flight L a" and al: "alloc_ok al a"
    and c: "\<forall>t \<in> fst ` set L. \<not> names t c" "c \<noteq> Terminate 0" "\<And>q. c \<noteq> Init q"
  shows "case perform al c a of Goes k b \<Rightarrow> in_flight L b \<and> perform al c (swaps L a) = Goes k (swaps L b)
    | Halts e b \<Rightarrow> \<exists>w. perform al c (swaps L a) = Halts e w"
proof (rule event_swaps [OF L])
  fix t p v x
  assume e: "(t, p, v) \<in> set L" "apart t p (marked v) x"
  have "\<not> names t c" using c(1) e(1) by force
  then show "same_result t p (marked v) v (perform al c x) (perform al c (swap p v x))"
    using perform_swap [OF e(2)] c(2,3) fresh_pointer [OF L al e(1)] by blast
qed

lemma tick_swaps:
  assumes L: "in_flight L a"
  shows "case tick a of Goes k b \<Rightarrow> in_flight L b \<and> tick (swaps L a) = Goes k (swaps L b)
    | Halts e b \<Rightarrow> \<exists>w. tick (swaps L a) = Halts e w"
  by (rule event_swaps [OF L]) (rule tick_swap)

lemma act_swaps:
  assumes L: "in_flight L a"
    and "\<And>t p v. (t, p, v) \<in> set L \<Longrightarrow> blind t p (marked v) v act (\<lambda>_. True)"
  shows "case settle (act a) of Goes k b \<Rightarrow> in_flight L b \<and> settle (act (swaps L a)) = Goes k (swaps L b)
    | Halts e b \<Rightarrow> \<exists>w. settle (act (swaps L a)) = Halts e w"
  by (rule event_swaps [OF L]) (rule settle_swap [OF blindD [OF assms(2)]])

lemma step_swaps:
  assumes L: "in_flight L a" and step: "lib_step (swaps L a) e t"
    and c: "\<And>c k. e = Called c k \<Longrightarrow> polite f c" and f: "fst ` set L = targets f"
    and own: "owned a"
  shows "\<exists>b. lib_step a e b \<and> t = swaps L b \<and> in_flight L b"
  using step
proof cases
  case (call al c k)
  have n: "\<forall>t \<in> fst ` set L. \<not> names t c" "c \<noteq> Terminate 0"
    using assms(3) [OF call(1)] f by (simp_all add: polite_def)
  have ok: "alloc_ok al a" "allowed a c" "totalQuantums a < INT_MAX"
    using call(2-4) L allowed_swaps [OF L n(1)] by (simp_all add: alloc_swaps)
  have "c \<noteq> Init q" for q using ok(2) by (auto simp: allowed_def)
  from perform_swaps [OF L ok(1) n this] call(5) obtain b where
    "perform al c a = Goes k b" "t = swaps L b" "in_flight L b"
    by (auto split: result.splits)
  then show ?thesis using lib_step.call [OF ok] call(1) by blast
next
  case (timer k)
  from tick_swaps [OF L] timer(4) obtain b where
    "tick a = Goes k b" "t = swaps L b" "in_flight L b"
    by (auto split: result.splits)
  then show ?thesis using lib_step.timer [of a k b] timer(1-3) by auto
next
  case (rehash ts sl)
  let ?b = "a\<lparr>threads := ts, sleepingThreads := sl\<rparr>"
  have p: "set ts = set (threads a)" "length ts = length (threads a)"
    "set sl = set (sleepingThreads a)" "length sl = length (sleepingThreads a)"
    using rehash(3-6) by simp_all
  have "um_find ts = um_find (threads a)" by (rule um_find_perm(2) [OF owned_um_ok(1) [OF own] p(1,2)])
  moreover have "um_keys sl = um_keys (sleepingThreads a)" using p(3) by (simp add: um_keys_def)
  ultimately have "apart t p th ?b = apart t p th a" for t p th by (simp add: apart_def)
  then have "in_flight L ?b" using L by (simp add: in_flight_def)
  moreover have "lib_step a e ?b" using lib_step.rehash [OF p] rehash(1) by simp
  ultimately show ?thesis using rehash(2) swaps_updates(2) [where L = L and s = a and ts = ts and sl = sl] by auto
qed

text \<open>The overlay belongs to the calls under way.\<close>

definition covers :: "in_flight_calls \<Rightarrow> overlay \<Rightarrow> bool" where
  "covers f L \<longleftrightarrow> fst ` set L = targets f
     \<and> (\<forall>c t p. f c = Some (In_block t p) \<longrightarrow> (\<exists>v. (t, p, v) \<in> set L))
     \<and> (\<forall>c al entry t. f c = Some (In_spawn al entry t) \<longrightarrow> entry \<noteq> 0 \<and> t \<noteq> -1)
     \<and> (\<forall>c d x y. c \<noteq> d \<longrightarrow> f c = Some x \<longrightarrow> f d = Some y \<longrightarrow> target x \<inter> target y = {})"

definition simulated :: "machine \<times> in_flight_calls \<Rightarrow> machine \<Rightarrow> bool" where
  "simulated x a \<longleftrightarrow> reachable a
     \<and> (\<exists>L. in_flight L a \<and> fst x = swaps L a \<and> covers (snd x) L)"

lemma simulatedI: "reachable a \<Longrightarrow> in_flight L a \<Longrightarrow> covers f L \<Longrightarrow> simulated (swaps L a, f) a"
  by (auto simp: simulated_def)

lemma covers_plain:
  assumes "covers f L" "f c = None" "target x = {}" "\<And>al entry t. x = In_spawn al entry t \<Longrightarrow> entry \<noteq> 0 \<and> t \<noteq> -1"
  shows "covers (f(c \<mapsto> x)) L"
  using assms targets_insert [of f c x] unfolding covers_def by auto

lemma covers_ready:
  assumes cov: "covers f L" and c: "f c = None" and t: "t \<notin> targets f"
    and x: "x = In_block t p \<or> x = In_terminate t"
  shows "covers (f(c \<mapsto> x)) ((t, p, v) # L)"
  unfolding covers_def
proof (intro conjI allI impI)
  have tx: "target x = {t}" using x by auto
  show "fst ` set ((t, p, v) # L) = targets (f(c \<mapsto> x))"
    using cov targets_insert [of f c x, OF c] tx by (simp add: covers_def)
  show "\<exists>v'. (u, q, v') \<in> set ((t, p, v) # L)" if h: "(f(c \<mapsto> x)) d = Some (In_block u q)" for d u q
  proof (cases "d = c")
    case True
    then show ?thesis using h x by auto
  next
    case False
    then have "f d = Some (In_block u q)" using h by simp
    then obtain w where "(u, q, w) \<in> set L" using cov unfolding covers_def by blast
    then show ?thesis by auto
  qed
  show "entry \<noteq> 0" "u \<noteq> -1" if h: "(f(c \<mapsto> x)) d = Some (In_spawn al entry u)" for d al entry u
  proof -
    have "f d = Some (In_spawn al entry u)" using h x by (cases "d = c") auto
    then show "entry \<noteq> 0" "u \<noteq> -1" using cov unfolding covers_def by blast+
  qed
  show "target y \<inter> target z = {}"
    if h: "d \<noteq> e" "(f(c \<mapsto> x)) d = Some y" "(f(c \<mapsto> x)) e = Some z" for d e y z
  proof -
    have new: "target w \<inter> {t} = {}" if "f g = Some w" for g w
      using that t by (auto simp: targets_def)
    consider "d = c" "f e = Some z" "y = x" | "e = c" "f d = Some y" "z = x"
      | "f d = Some y" "f e = Some z"
      using h by (cases "d = c"; cases "e = c") auto
    then show ?thesis
    proof cases
      case 3
      then show ?thesis using cov h(1) unfolding covers_def by blast
    qed (use new tx in auto)
  qed
qed

lemma covers_others:
  assumes "covers f L" "f c = Some x" "target x = {t}"
  shows "covers (f(c := None)) (others t L)"
proof -
  have d: "target x \<inter> target y = {}" if "d \<noteq> c" "f d = Some y" for d y
    using assms(1,2) that unfolding covers_def by blast
  have "fst ` set (others t L) = fst ` set L - {t}" by (auto simp: others_def)
  moreover have "targets (f(c := None)) = targets f - {t}"
    using targets_erase [of f c x, OF assms(2) d] assms(3) by simp
  moreover have "\<exists>v. (u, p, v) \<in> set (others t L)" if h: "f d = Some (In_block u p)" "d \<noteq> c" for d u p
  proof -
    have "u \<noteq> t" using d [OF h(2,1)] assms(3) by auto
    moreover obtain v where "(u, p, v) \<in> set L" using assms(1) h(1) unfolding covers_def by blast
    ultimately show ?thesis by (auto simp: others_def)
  qed
  ultimately show ?thesis using assms(1) unfolding covers_def by (auto split: if_splits)
qed

lemma covers_erase_plain:
  assumes "covers f L" "f c = Some x" "target x = {}"
  shows "covers (f(c := None)) L"
  using assms targets_erase [of f c x, OF assms(2)] unfolding covers_def by (auto split: if_splits)

subsection \<open>Beginning a call\<close>

text \<open>A thread that is READY is blocked by the uninterrupted execution when the call begins.\<close>

lemma sim_ready:
  assumes r: "reachable a" and L: "in_flight L a" and t: "ready_target (swaps L a) t" "t \<notin> fst ` set L"
    and max: "totalQuantums a < INT_MAX"
  obtains p th where "um_find (threads (swaps L a)) t = Some p" "um_find (heap (swaps L a)) p = Some th"
    "state th = READY" "reachable (blocked_state t a)" "in_flight ((t, p, th) # L) (blocked_state t a)"
    "swap p th (blocked_state t (swaps L a)) = swaps ((t, p, th) # L) (blocked_state t a)"
proof -
  note inv = reachable_inv [OF r]
  note d = sched_invD [OF inv]
  obtain th where th: "table (swaps L a) t = Some th" "state th = READY" "\<not> didUserBlock th"
    "\<not> terminated th" "t \<noteq> 0" "t \<notin> sleepers a"
    using t(1) by (auto elim: ready_targetE)
  obtain p where p: "um_find (threads (swaps L a)) t = Some p" "um_find (heap (swaps L a)) p = Some th"
    using th(1) by (rule table_SomeE)
  have ta: "table a t = Some th" using th(1) table_swaps [OF L t(2)] by simp
  then have pa: "um_find (threads a) t = Some p" "um_find (heap a) p = Some th"
    using p(1) by (auto simp: table_def)
  obtain al where al: "alloc_ok al a" using fresh_allocation [OF inv] by blast
  have go: "perform al (Block t) a = Goes (Returns 0) (blocked_state t a)"
    using block_ready [OF d(6,4) ta th(3,2)] uthread_block_known [OF inv table_tids [OF ta] th(5)]
    by (simp add: perform_def)
  then have "lib_step a (Called (Block t) (Returns 0)) (blocked_state t a)"
    using al max by (intro lib_step.call) (simp_all add: allowed_def)
  then have rb: "reachable (blocked_state t a)" by (rule reach_step [OF r])
  have "\<not> names u (Block t)" if "u \<in> fst ` set L" for u
    using that t(2) by (auto simp: names_def)
  then have "in_flight L (blocked_state t a)"
    using perform_swaps [OF L al, of "Block t"] go by auto
  moreover have "apart t p (marked th) (blocked_state t a)"
    by (rule apart_blocked [OF inv pa th(2,4,6)])
  ultimately have fl: "in_flight ((t, p, th) # L) (blocked_state t a)"
    using t(2) th(2,3) by (simp add: in_flight_Cons)
  have "swap p th (blocked_state t (swaps L a)) = (swaps L a)\<lparr>readyQueue := filter (\<lambda>x. x \<noteq> t) (readyQueue a),
      sigmask := sigmask a - {SIGVTALRM}\<rparr>"
    using mid_call(1) [OF p] by simp
  also have "\<dots> = swaps L (swap p th (blocked_state t a))"
    using mid_call(1) [OF pa] swaps_updates(1) [where L = L and s = a] by metis
  finally show ?thesis using that p th(2) rb fl by simp
qed

lemma sim_begin:
  assumes sim: "simulated (m, f) a" and f: "f (currentTid m) = None" "polite f c" and dv: "divisible m c"
    and en: "tick_enabled m" and max: "totalQuantums m < INT_MAX" and go: "begin_call al c m = Done x u"
  shows "\<exists>b. simulated (u, f(currentTid m \<mapsto> x)) b"
proof -
  obtain L where L: "reachable a" "in_flight L a" "m = swaps L a" "covers f L"
    using sim by (auto simp: simulated_def)
  have fs: "fst ` set L = targets f" using L(4) by (simp add: covers_def)
  have os: "failing m = []" using sched_invD(6) [OF reachable_inv [OF L(1)]] L(3) by simp
  have ready: "\<exists>b. simulated (u, f(currentTid m \<mapsto> x)) b"
    if c: "c = Block t \<or> c = Terminate t" for t
  proof -
    have t: "ready_target (swaps L a) t" "t \<notin> fst ` set L"
      using dv f(2) c by (auto simp: L(3) fs divisible_def polite_def names_def)
    have "totalQuantums a < INT_MAX" using max by (simp add: L(3))
    from sim_ready [OF L(1,2) t this] obtain p th where h:
      "um_find (threads m) t = Some p" "um_find (heap m) p = Some th" "state th = READY"
      "reachable (blocked_state t a)" "in_flight ((t, p, th) # L) (blocked_state t a)"
      "swap p th (blocked_state t m) = swaps ((t, p, th) # L) (blocked_state t a)"
      by (auto simp: L(3))
    have "u = swap p th (blocked_state t m)" "x = In_block t p \<or> x = In_terminate t"
      using go c begin_eval [OF os h(1-3)] by (auto simp: begin_call_def bnd_apply ret_apply)
    then show ?thesis
      using simulatedI [OF h(4,5) covers_ready [OF L(4) f(1)]] h(6) t(2) fs by metis
  qed
  have plain: "\<exists>b. simulated (u, f(currentTid m \<mapsto> x)) b"
    if "u = m" "target x = {}" "\<And>al entry t. x = In_spawn al entry t \<Longrightarrow> entry \<noteq> 0 \<and> t \<noteq> -1"
  proof -
    have "covers (f(currentTid m \<mapsto> x)) L" by (rule covers_plain [OF L(4) f(1) that(2)]) (rule that(3))
    from simulatedI [OF L(1,2) this] that(1) L(3) show ?thesis by auto
  qed
  show ?thesis
  proof (cases c)
    case (Block t)
    then show ?thesis by (intro ready) simp
  next
    case (Terminate t)
    then show ?thesis by (intro ready) simp
  next
    case (Resume t)
    then obtain th where "table m t = Some th"
      using dv by (auto simp: divisible_def blocked_in_def split: option.splits)
    then obtain p where "um_find (threads m) t = Some p" "um_find (heap m) p = Some th"
      by (rule table_SomeE)
    then show ?thesis
      using go Resume by (intro plain) (auto simp: begin_call_def resume_begin_def threads_at_def
          deref_def act_simps)
  next
    case (Spawn entry)
    then show ?thesis
      using go dv by (intro plain) (auto simp: begin_call_def nextAvailableTid_def act_simps
          divisible_def free_tid_def)
  next
    case (Get_quantums t)
    have "m\<lparr>sigmask := sigmask m - {SIGVTALRM}\<rparr> = m" using en by (simp add: tick_enabled_def)
    then show ?thesis
      using go Get_quantums os by (intro plain) (auto simp: begin_call_def getQuantums_begin_def act_simps)
  qed (use dv in \<open>simp_all add: divisible_def\<close>)
qed

subsection \<open>Going on with a call\<close>

lemma blind_block_end: "q \<noteq> p \<Longrightarrow> blind t p th v (block_end q) (\<lambda>_. True)"
  unfolding block_end_def
  by (auto simp del: stmts.simps intro!: blind_stmts blind_call_method blind_signals)

lemma blind_terminate_end:
  assumes "u \<noteq> t"
  shows "blind t p th v (terminate_end u) (\<lambda>_. True)"
proof -
  have "blind t p th v (modify (\<lambda>s. s\<lparr>pendingDeletionTid := currentTid s\<rparr>)) (\<lambda>_. True)"
    by (rule blind_modify) (simp add: apart_def)
  then show ?thesis
    unfolding terminate_end_def using assms
    by (auto simp del: stmts.simps intro!: blind_stmts blind_signals blind_cond blind_sleep_erase
        blind_bnd [OF blind_threads_at] blind_delete_thread blind_threads_erase blind_print_err
        blind_reads blind_on_thread blind_switch dest: apart_pending)
qed

text \<open>The target of the call: it is marked, or removed, in both executions.\<close>

lemma table_target:
  assumes L: "in_flight L a" and e: "(t, p, v) \<in> set L"
  shows "table (swaps L a) t = Some v"
proof -
  note o = others_in_flight [OF L e]
  have "table (swap p v a) t = Some v"
    using L e by (auto simp: in_flight_def apart_def table_def)
  then show ?thesis
    using table_swaps [OF o(2), of t] o(3) swaps_pick [OF L e] by simp
qed

lemma target_not_main: "sched_inv a \<Longrightarrow> apart t p th a \<Longrightarrow> t \<noteq> 0"
  using sched_invD(14) [of a] by (auto simp: apart_def)

lemma end_target:
  assumes inv: "sched_inv a" and L: "in_flight L a" and e: "(t, p, v) \<in> set L"
  shows "tick_enabled a \<Longrightarrow> settle (block_end p (swaps L a)) = Goes (Returns 0) (swaps (others t L) a)"
    and "settle (terminate_end t (swaps L a)) = Goes (Returns 0) (swaps (others t L) (removed_state t a))"
    and "in_flight (others t L) (removed_state t a)"
proof -
  let ?L = "others t L" and ?a = "swap p v a"
  note o = others_in_flight [OF L e]
  have ap: "apart t p (marked v) a" and v: "state v = READY" "\<not> didUserBlock v"
    using L e by (auto simp: in_flight_def)
  have ne: "t \<noteq> u" "p \<noteq> q" if h: "(u, q, w) \<in> set ?L" for u q w
  proof -
    show ut: "t \<noteq> u" using h by (auto simp: others_def)
    have "apart u q (marked w) a" using o(1) h by (auto simp: in_flight_def)
    then show "p \<noteq> q" using apart_pointers [OF ap _ ut] by blast
  qed
  have b: "blind u q (marked w) w (block_end p) (\<lambda>_. True)"
      "blind u q (marked w) w (terminate_end t) (\<lambda>_. True)" if "(u, q, w) \<in> set ?L" for u q w
    using ne [OF that] by (simp_all add: blind_block_end blind_terminate_end)
  show "settle (block_end p (swaps L a)) = Goes (Returns 0) (swaps ?L a)" if en: "tick_enabled a"
    using act_swaps [OF o(2) b(1)] block_end_eval [OF sched_invD(6) [OF inv] ap en]
    by (simp add: swaps_pick [OF L e])
  show "settle (terminate_end t (swaps L a)) = Goes (Returns 0) (swaps ?L (removed_state t a))"
    "in_flight ?L (removed_state t a)"
    using act_swaps [OF o(2) b(2)] terminate_end_eval [OF inv ap target_not_main [OF inv ap] v]
    by (simp_all add: swaps_pick [OF L e])
qed

lemma perform_goes:
  assumes "sched_inv a" "alloc_ok al a" "allowed a c" "totalQuantums a < INT_MAX" "c \<noteq> Terminate 0"
  shows "\<exists>k b. perform al c a = Goes k b"
  using call_eval [OF assms] by (simp add: call_result_def split: option.splits prod.splits)

text \<open>The second part never faults, and the uninterrupted execution follows it.\<close>

lemma sim_finish:
  assumes sim: "simulated (m, f) a" and f: "f (currentTid m) = Some x" and st: "still x m"
    and en: "tick_enabled m" and max: "totalQuantums m < INT_MAX"
  shows "\<exists>k u b. settle (end_call x m) = Goes k u \<and> simulated (u, f(currentTid m := None)) b"
proof -
  obtain L where L: "reachable a" "in_flight L a" "m = swaps L a" "covers f L"
    using sim by (auto simp: simulated_def)
  note inv = reachable_inv [OF L(1)]
  have mx: "totalQuantums a < INT_MAX" using max by (simp add: L(3))
  have ea: "tick_enabled a" using en by (simp add: L(3))
  obtain al where al: "alloc_ok al a" using fresh_allocation [OF inv] by blast
  have call: "\<exists>k u b. settle (act (swaps L a)) = Goes k u \<and> simulated (u, f(currentTid m := None)) b"
    if h: "alloc_ok al' a" "allowed a c" "c \<noteq> Terminate 0" "perform al' c a = settle (act a)" "target x = {}"
      "\<And>t p v. (t, p, v) \<in> set L \<Longrightarrow> blind t p (marked v) v act (\<lambda>_. True)" for al' c act
  proof -
    obtain k b where b: "perform al' c a = Goes k b" using perform_goes [OF inv h(1,2) mx h(3)] by blast
    then have s: "settle (act (swaps L a)) = Goes k (swaps L b)" "in_flight L b"
      using act_swaps [OF L(2) h(6)] h(4) by auto
    have "reachable b" by (rule reach_step [OF L(1) lib_step.call [OF h(1,2) mx b]])
    then show ?thesis
      using s simulatedI [OF _ s(2) covers_erase_plain [OF L(4) f h(5)]] by auto
  qed
  show ?thesis
  proof (cases x)
    case (In_block t p)
    then obtain v where e: "(t, p, v) \<in> set L" using L(4) f unfolding covers_def by blast
    show ?thesis
      using end_target(1) [OF inv L(2) e ea] simulatedI [OF L(1) others_in_flight(1) [OF L(2) e]
          covers_others [OF L(4) f]] In_block L(3) by auto
  next
    case (In_terminate t)
    have "t \<in> targets f" using f In_terminate by (force simp: targets_def)
    then have "t \<in> fst ` set L" using L(4) by (simp add: covers_def)
    then obtain p v where e: "(t, p, v) \<in> set L" by auto
    then have ap: "apart t p (marked v) a" using L(2) by (auto simp: in_flight_def)
    have t: "t \<noteq> 0" "t \<noteq> currentTid a" "t \<noteq> pendingDeletionTid a" "t \<in> tids a"
      using target_not_main [OF inv ap] ap by (auto simp: apart_def tids_def um_find_SomeD)
    have "perform al (Terminate t) a = Goes (Returns 0) (removed_state t a)"
      using terminate_other [OF inv t(4,1,2)] uthread_terminate_known [OF inv t(4)] by (simp add: perform_def)
    moreover have "allowed a (Terminate t)" using t by (simp add: allowed_def)
    ultimately have "reachable (removed_state t a)" using reach_step [OF L(1) lib_step.call [OF al _ mx]] by blast
    then show ?thesis
      using end_target(2) [OF inv L(2) e] simulatedI [OF _ end_target(3) [OF inv L(2) e]
          covers_others [OF L(4) f]] In_terminate L(3) by auto
  next
    case (In_resume t p)
    then obtain th where th: "um_find (threads m) t = Some p" "um_find (heap m) p = Some th" "state th = BLOCKED"
        "table m t = Some th" and tm: "\<not> terminated_in m t"
      using st by (auto simp: blocked_in_def table_def split: option.splits)
    have nt: "t \<notin> fst ` set L"
    proof
      assume "t \<in> fst ` set L"
      then obtain q v where e: "(t, q, v) \<in> set L" by auto
      then have "state v = READY" using L(2) by (auto simp: in_flight_def)
      then show False using table_target [OF L(2) e] th(3,4) L(3) by simp
    qed
    have "table a t = Some th" using th(4) table_swaps [OF L(2) nt] L(3) by simp
    note ti = table_tids [OF this]
    have "end_call x m = resume t (swaps L a)"
      using resume_end_late [OF th(1-3)] tid_range [OF inv ti] In_resume L(3) by simp
    moreover have "blind w q (marked v) v (resume t) (\<lambda>_. True)" if "(w, q, v) \<in> set L" for w q v
      using nt that by (intro blind_resume) force
    moreover have "perform al (Resume t) a = settle (resume t a)"
      using uthread_resume_known [OF inv ti] by (simp add: perform_def)
    moreover have "allowed a (Resume t)" using tm in_swaps [OF L(2) nt] L(3) by (simp add: allowed_def)
    ultimately show ?thesis using call [OF al, of "Resume t" "resume t"] In_resume by simp
  next
    case (In_spawn al' entry t)
    have "entry \<noteq> 0 \<and> t \<noteq> -1" using L(4) f In_spawn unfolding covers_def by blast
    then have s: "free_tid m = t" "alloc_ok al' a" "entry \<noteq> 0" "t \<noteq> -1"
      using st In_spawn alloc_swaps [OF L(2), of al'] by (simp_all add: L(3))
    have "end_call x m = spawn al' entry (swaps L a)"
      using spawn_with_late [of m t al' entry] s In_spawn L(3) by (simp add: free_tid_def)
    moreover have "blind w q (marked v) v (spawn al' entry) (\<lambda>_. True)" if "(w, q, v) \<in> set L" for w q v
      using fresh_pointer [OF L(2) s(2) that] by (rule blind_spawn)
    moreover have "perform al' (Spawn entry) a = settle (spawn al' entry a)"
      using s(3) by (simp add: perform_def uthread_spawn_def)
    ultimately show ?thesis
      using call [OF s(2), of "Spawn entry" "spawn al' entry"] In_spawn by (simp add: allowed_def)
  next
    case (In_getQuantums t)
    then obtain th where "table m t = Some th" using st by auto
    then show ?thesis
      using simulatedI [OF L(1,2) covers_erase_plain [OF L(4) f]] L(3) In_getQuantums
      by (auto simp: getQuantums_end_def ask_thread_ok)
  qed
qed

subsection \<open>All executions\<close>

lemma sim_step:
  assumes sim: "simulated x a" and step: "fine_step x e y"
  shows "\<exists>b. simulated y b"
  using step
proof cases
  case (whole s ev t f)
  obtain L where L: "reachable a" "in_flight L a" "s = swaps L a" "covers f L"
    using sim whole(1) by (auto simp: simulated_def)
  have own: "owned a" by (rule sched_invD(4) [OF reachable_inv [OF L(1)]])
  have "fst ` set L = targets f" using L(4) by (simp add: covers_def)
  from step_swaps [OF L(2) _ _ this own, of ev t] whole(4,5) L(3) obtain b where
    "lib_step a ev b" "t = swaps L b" "in_flight L b" by blast
  then show ?thesis
    using simulatedI [OF reach_step [OF L(1)] _ L(4)] whole(3) by blast
next
  case (begins f s c al z t)
  then show ?thesis using sim_begin [of s f a c al z t] sim by blast
next
  case (finishes f s z k t)
  then show ?thesis using sim_finish [of s f a z] sim by auto
qed

lemma sim_start: "fine_start x \<Longrightarrow> simulated x (fst x)"
  using simulatedI [of "fst x" "[]" "snd x"]
  by (cases x) (auto simp: fine_start_def covers_def in_flight_def intro: reach_start)

interpretation interleaving: safe_system fine_start fine_step "\<lambda>x. \<exists>a. simulated x a"
  by unfold_locales (blast intro: sim_start sim_step)+

text \<open>An execution without interruptions is one of them.\<close>

lemma whole_execution: "reachable s \<Longrightarrow> reach fine_start fine_step (s, Map.empty)"
proof (induction rule: reach.induct)
  case (reach_start s)
  then show ?case by (auto simp: fine_start_def intro: reach.reach_start)
next
  case (reach_step s e t)
  have "polite Map.empty c" if "e = Called c k" for c k
  proof -
    have "c \<noteq> Terminate 0"
      using reach_step.hyps(2) reachable_inv [OF reach_step.hyps(1)]
    proof (cases rule: step_cases)
      case (depart c' site u k')
      then show ?thesis using that by (auto simp: departs_def)
    qed (use that in auto)
    then show ?thesis by (simp add: polite_def)
  qed
  then have "fine_step (s, Map.empty) (Whole e) (t, Map.empty)"
    using reach_step.hyps(2) by (intro fine_step.whole) auto
  with reach_step.IH show ?case by (rule reach.reach_step)
qed

text \<open>C34: interrupted calls are serialisable.  Take any execution in which calls of \<open>block\<close>,
  \<open>terminate\<close>, \<open>resume\<close>, \<open>spawn\<close> and \<open>getQuantums\<close> are interrupted in the middle, any number of
  them at the same time, and go on later, where nobody names the target of a call that is under
  way, nobody terminates a thread in the middle of a call, and what a call has read still holds
  when it goes on.  Then there is a state that uninterrupted calls reach which agrees with the
  state of the process except for the objects of the threads a call under way is about, and
  entirely when no call is under way; and nothing that can happen next is a fault.\<close>

theorem interrupted_calls_serialise:
  assumes "reach fine_start fine_step (m, f)"
  shows "(\<exists>a. reachable a \<and> currentTid a = currentTid m \<and> readyQueue a = readyQueue m
      \<and> sleepingThreads a = sleepingThreads m \<and> totalQuantums a = totalQuantums m
      \<and> threads a = threads m \<and> sigmask a = sigmask m
      \<and> (\<forall>t. t \<notin> targets f \<longrightarrow> table a t = table m t) \<and> (f = Map.empty \<longrightarrow> a = m))
    \<and> (totalQuantums m < INT_MAX \<longrightarrow>
        (tick_enabled m \<longrightarrow> (\<exists>k u. tick m = Goes k u))
      \<and> (\<forall>al c. alloc_ok al m \<longrightarrow> allowed m c \<longrightarrow> polite f c \<longrightarrow> (\<exists>k u. perform al c m = Goes k u))
      \<and> (\<forall>x. f (currentTid m) = Some x \<longrightarrow> still x m \<longrightarrow> tick_enabled m \<longrightarrow>
            (\<exists>k u. settle (end_call x m) = Goes k u)))"
proof -
  obtain a where sim: "simulated (m, f) a" using interleaving.reach_inv [OF assms] by blast
  then obtain L where L: "reachable a" "in_flight L a" "m = swaps L a" "covers f L"
    by (auto simp: simulated_def)
  note inv = reachable_inv [OF L(1)]
  have fs: "fst ` set L = targets f" using L(4) by (simp add: covers_def)
  have "a = m" if "f = Map.empty" using fs that L(3) by simp
  moreover have "\<forall>t. t \<notin> targets f \<longrightarrow> table a t = table m t"
    using table_swaps [OF L(2)] fs L(3) by simp
  moreover have "\<exists>k u. tick m = Goes k u" if "tick_enabled m" "totalQuantums m < INT_MAX"
    using tick_ready(2) [OF inv] tick_swaps [OF L(2)] that by (auto simp: L(3))
  moreover have "\<exists>k u. perform al c m = Goes k u"
    if h: "alloc_ok al m" "allowed m c" "polite f c" "totalQuantums m < INT_MAX" for al c
  proof -
    have n: "\<forall>t \<in> fst ` set L. \<not> names t c" "c \<noteq> Terminate 0"
      using h(3) fs by (simp_all add: polite_def)
    have ok: "alloc_ok al a" "allowed a c" "totalQuantums a < INT_MAX"
      using h L(2,3) allowed_swaps [OF L(2) n(1)] by (simp_all add: alloc_swaps)
    have "c \<noteq> Init q" for q using ok(2) by (auto simp: allowed_def)
    then show ?thesis
      using perform_swaps [OF L(2) ok(1) n] perform_goes [OF inv ok n(2)] L(3) by auto
  qed
  moreover have "\<exists>k u. settle (end_call x m) = Goes k u"
    if "f (currentTid m) = Some x" "still x m" "tick_enabled m" "totalQuantums m < INT_MAX" for x
    using sim_finish [OF sim that] by blast
  ultimately show ?thesis using L(1,3) by (intro conjI exI [of _ a]) auto
qed

text \<open>Thread 1 blocks thread 2 and is interrupted; the main thread runs and is interrupted in
  \<open>uthread_spawn\<close>; thread 1 goes on, then the main thread.\<close>

theorem interrupted_calls_serialise_witness:
  "\<exists>m. reach fine_start fine_step (m, Map.empty) \<and> reachable m \<and> blocked_in m 2 \<and> tids m = {0, 1, 2, 3}"
proof -
  have r: "reachable two_ready" unfolding two_ready_def by (rule sample_running)
  obtain x m1 k1 m2 y m3 k3 m4 k4 m5 k5 m6 k6 m7 where e:
    "begin_call (memory 8) (Block 2) two_ready = Done x m1" "tick m1 = Goes k1 m2"
    "begin_call (memory 9) (Spawn 99) m2 = Done y m3" "tick m3 = Goes k3 m4"
    "settle (end_call x m4) = Goes k4 m5" "tick m5 = Goes k5 m6" "settle (end_call y m6) = Goes k6 m7"
    and cur: "currentTid two_ready = 1" "currentTid m1 = 1" "currentTid m2 = 0" "currentTid m3 = 0"
      "currentTid m4 = 1" "currentTid m5 = 1" "currentTid m6 = 0" "x = In_block 2 20480" "y = In_spawn (memory 9) 99 3"
    and en: "tick_enabled two_ready" "tick_enabled m1" "tick_enabled m2" "tick_enabled m3"
      "tick_enabled m4" "tick_enabled m5" "tick_enabled m6"
    and ok: "divisible two_ready (Block 2)" "divisible m2 (Spawn 99)" "still y m6"
    and tq: "totalQuantums two_ready < INT_MAX" "totalQuantums m1 < INT_MAX" "totalQuantums m2 < INT_MAX"
      "totalQuantums m3 < INT_MAX" "totalQuantums m4 < INT_MAX" "totalQuantums m5 < INT_MAX"
      "totalQuantums m6 < INT_MAX"
    and fin: "blocked_in m7 2" "tids m7 = {0, 1, 2, 3}"
    by (simp add: race_simps begin_call_def divisible_def ready_target_def free_tid_def)
  have al: "allowed s (Block 2)" "allowed s (Spawn 99)" for s by (simp_all add: allowed_def)
  have tk: "reach fine_start fine_step (u, f)"
    if "reach fine_start fine_step (s, f)" "tick_enabled s" "totalQuantums s < INT_MAX" "tick s = Goes k u"
    for s f k u
    using reach_step [OF that(1) fine_step.whole [OF lib_step.timer [OF that(2-4)]]] by simp
  let ?f = "[1 \<mapsto> x] :: in_flight_calls" and ?g = "[1 \<mapsto> x, 0 \<mapsto> y] :: in_flight_calls"
  have "reach fine_start fine_step (two_ready, Map.empty)" by (rule whole_execution [OF r])
  moreover have "fine_step (two_ready, Map.empty) (Begins (Block 2)) (m1, Map.empty(currentTid two_ready \<mapsto> x))"
    by (rule fine_step.begins [OF _ _ ok(1) al(1) en(1) tq(1) e(1)]) (simp_all add: polite_def)
  ultimately have "reach fine_start fine_step (m1, ?f)" unfolding cur by (rule reach_step)
  from tk [OF this en(2) tq(2) e(2)] have "reach fine_start fine_step (m2, ?f)" .
  moreover have "fine_step (m2, ?f) (Begins (Spawn 99)) (m3, ?f(currentTid m2 \<mapsto> y))"
    by (rule fine_step.begins [OF _ _ ok(2) al(2) en(3) tq(3) e(3)])
      (simp_all add: cur polite_def names_def)
  ultimately have "reach fine_start fine_step (m3, ?g)" unfolding cur by (rule reach_step)
  from tk [OF this en(4) tq(4) e(4)] have "reach fine_start fine_step (m4, ?g)" .
  moreover have "fine_step (m4, ?g) (Finishes x k4) (m5, ?g(currentTid m4 := None))"
    by (rule fine_step.finishes [OF _ _ en(5) tq(5) e(5)]) (simp_all add: cur)
  ultimately have "reach fine_start fine_step (m5, ?g(1 := None))" unfolding cur by (rule reach_step)
  from tk [OF this en(6) tq(6) e(6)] have "reach fine_start fine_step (m6, ?g(1 := None))" .
  moreover have "fine_step (m6, ?g(1 := None)) (Finishes y k6) (m7, ?g(1 := None, currentTid m6 := None))"
    by (rule fine_step.finishes [OF _ ok(3) en(7) tq(7) e(7)]) (simp add: cur)
  ultimately have "reach fine_start fine_step (m7, ?g(1 := None, 0 := None))" unfolding cur by (rule reach_step)
  moreover have "?g(1 := None, 0 := None) = Map.empty" by (rule ext) simp
  ultimately have "reach fine_start fine_step (m7, Map.empty)" by simp
  then show ?thesis using interrupted_calls_serialise [of m7 Map.empty] fin by auto
qed

end
