(* ===== verification/Signals.thy ===== *)
theory Signals
  imports Interrupts Safety
begin

section \<open>The signal in the handler and at the end of the process\<close>

text \<open>
  Two more points at which the timer signal gets through.  \<open>timerHandler\<close> unblocks it before it
  switches, so the handler can be interrupted by itself: this does no harm.  \<open>terminate(0)\<close>
  unblocks it between the deletion of all threads and \<open>exit\<close>: an expiration that is pending there
  crashes the process.
\<close>

subsection \<open>The handler interrupted by itself\<close>

text \<open>\<open>timerHandler\<close> up to its \<open>unblockTimerSignal\<close>; what is left is the switch.\<close>

definition handler_begin :: "unit act" where
  "handler_begin = stmts [blockTimerSignal, wakeSleepingThreads, unblockTimerSignal] (ret ())"

lemma handler_parts: "timerHandler m = bnd handler_begin (\<lambda>_. doContextSwitch (From_timer m))"
  by (rule ext) (simp add: timerHandler_def handler_begin_def act_simps split: outcome.splits)

lemma fold_wake_idle:
  "\<forall>e \<in> set it. totalQuantums s < snd e \<Longrightarrow> fold wake_entry it s = s"
  by (induction it) (auto simp: wake_entry_def)

lemma before_tick_twice:
  assumes "owned s" "SIGVTALRM \<notin> sigmask s"
  shows "before_tick_switch (before_tick_switch s) = before_tick_switch s"
proof -
  let ?h = "before_tick_switch s"
  have "\<forall>e \<in> set (sleepingThreads ?h). totalQuantums ?h < snd e"
    using woken_sleeping [OF owned_um_ok(3) [OF assms(1)]] by (simp add: before_tick_switch_def)
  then have "woken ?h = ?h" unfolding woken_def by (rule fold_wake_idle)
  then show ?thesis using assms(2) by (simp add: before_tick_switch_def)
qed

lemma handler_begin_eval:
  assumes "sched_inv s" "SIGVTALRM \<notin> sigmask s"
  shows "handler_begin (s\<lparr>sigmask := insert SIGVTALRM (sigmask s)\<rparr>) = Done () (before_tick_switch s)"
proof -
  note d = sched_invD [OF assms(1)]
  let ?s = "s\<lparr>sigmask := insert SIGVTALRM (sigmask s)\<rparr>"
  have "wakeSleepingThreads ?s = Done () (woken ?s)"
    by (rule wakeSleepingThreads_eval) (use d in auto)
  also have "woken ?s = (woken s)\<lparr>sigmask := insert SIGVTALRM (sigmask s)\<rparr>"
    by (simp add: woken_def fold_wake_mask)
  finally show ?thesis
    using d(6) assms(2) by (simp add: handler_begin_def act_simps before_tick_switch_def)
qed

lemma timer_switchable:
  assumes "sched_inv u" "totalQuantums u < INT_MAX" "SIGVTALRM \<notin> m"
  shows "switchable (From_timer m) u"
  using assms by (auto simp: switchable_def sched_inv_def)

lemma nested_tick:
  assumes "sched_inv s" "tick_enabled s" "totalQuantums s < INT_MAX"
  shows "tick (before_tick_switch s) = tick s"
proof -
  note d = sched_invD [OF assms(1)]
  let ?h = "before_tick_switch s" and ?site = "From_timer (sigmask s)"
  have m: "SIGVTALRM \<notin> sigmask s" using assms(2) by (simp add: tick_enabled_def)
  have sw: "switchable ?site ?h" by (rule tick_switchable [OF assms(1,3) m])
  have f: "sigmask ?h = sigmask s" "failing ?h = []" "owned ?h" "sleepers ?h \<subseteq> tids ?h"
    using m d switchableD [OF sw] shape_fields(11) [OF switchableD(1) [OF sw]]
    by (auto simp: before_tick_switch_def)
  let ?a = "?h\<lparr>sigmask := insert SIGVTALRM (sigmask s)\<rparr>"
  have "wakeSleepingThreads ?a = Done () (woken ?a)"
    by (rule wakeSleepingThreads_eval) (use f in auto)
  moreover have "(woken ?a)\<lparr>sigmask := sigmask s\<rparr> = before_tick_switch ?h"
    using f(1) m by (simp add: woken_def fold_wake_mask before_tick_switch_def [of ?h])
  ultimately have "timerHandler (sigmask s) ?a = doContextSwitch ?site ?h"
    using f m before_tick_twice [OF d(4) m] by (simp add: timerHandler_def act_simps)
  then have "tick ?h = settle (bnd (doContextSwitch ?site) (\<lambda>_. ret 0) ?h)"
    by (simp add: tick_def f(1) bnd_apply)
  then show ?thesis
    using switch_settles [OF sw] tick_eval [OF assms(1,3,2)] by simp
qed

text \<open>C35: the handler may be interrupted by itself.  If the timer expires again behind the
  \<open>unblockTimerSignal\<close> of \<open>timerHandler\<close>, the nested handler does exactly what the interrupted one
  was about to do, a whole tick; and whenever the interrupted one goes on, in whatever state the
  library has reached by then, its switch does not fault, keeps the invariant of the scheduler
  and leaves the signal deliverable.\<close>

theorem handler_reentry_is_safe:
  assumes "reachable s" "tick_enabled s" "totalQuantums s < INT_MAX"
  shows "\<exists>h. handler_begin (s\<lparr>sigmask := insert SIGVTALRM (sigmask s)\<rparr>) = Done () h \<and> tick h = tick s
    \<and> (\<forall>u. reachable u \<longrightarrow> totalQuantums u < INT_MAX \<longrightarrow>
         (\<exists>k v. settle (bnd (doContextSwitch (From_timer (sigmask s))) (\<lambda>_. ret 0) u) = Goes k v
            \<and> sched_inv v \<and> tick_enabled v))"
proof -
  note inv = reachable_inv [OF assms(1)]
  have m: "SIGVTALRM \<notin> sigmask s" using assms(2) by (simp add: tick_enabled_def)
  have "\<exists>k v. settle (bnd (doContextSwitch (From_timer (sigmask s))) (\<lambda>_. ret 0) u) = Goes k v
      \<and> sched_inv v \<and> tick_enabled v" if "reachable u" "totalQuantums u < INT_MAX" for u
    using timer_switchable [OF reachable_inv [OF that(1)] that(2) m] switch_settles switch_to_inv
      switch_to_tick_enabled by metis
  then show ?thesis
    using handler_begin_eval [OF inv m] nested_tick [OF inv assms(2,3)] by blast
qed

theorem handler_reentry_is_safe_witness:
  "\<exists>h k u. handler_begin (two_ready\<lparr>sigmask := {SIGVTALRM}\<rparr>) = Done () h \<and> tick h = Goes k u
     \<and> currentTid u = 2"
proof -
  have r: "reachable two_ready" unfolding two_ready_def by (rule sample_running)
  have s: "tick_enabled two_ready" "totalQuantums two_ready < INT_MAX" "sigmask two_ready = {}"
    by (simp_all add: two_ready_def run_simps state_simps)
  obtain k u where u: "tick two_ready = Goes k u" "currentTid u = 2"
    by (simp add: two_ready_def run_simps state_simps)
  from handler_reentry_is_safe [OF r s(1,2)] s(3) u show ?thesis by auto
qed

subsection \<open>The end of the process\<close>

text \<open>\<open>terminate(0)\<close> up to its \<open>unblockTimerSignal\<close>; what is left is \<open>exit(0)\<close>.\<close>

definition exit_begin :: "unit act" where
  "exit_begin = stmts
     [blockTimerSignal,
      reads (\<lambda>s. delete_all (threads s)),
      modify (\<lambda>s. s\<lparr>threads := []\<rparr>),
      unblockTimerSignal] (ret ())"

lemma exit_parts: "terminate 0 = bnd exit_begin (\<lambda>_. leave (Exit 0))"
  by (rule ext) (simp add: terminate_def exit_begin_def act_simps split: outcome.splits)

text \<open>The handler on an empty table.\<close>

definition emptied :: "machine \<Rightarrow> bool" where
  "emptied s \<longleftrightarrow> threads s = [] \<and> heap s = [] \<and> failing s = []"

lemma call_in_empty:
  assumes "emptied s"
  shows "\<exists>u. on_thread t f s = Stop (Fault Null_pointer) u"
    and "\<exists>u. ask_thread t g s = Stop (Fault Null_pointer) u"
  using assms
  by (simp_all add: emptied_def on_thread_def ask_thread_def call_method_def threads_at_def deref_def
      act_simps um_find_def)

lemma wake_in_empty:
  "emptied s \<Longrightarrow> wake_loop it s = Done () s \<or> (\<exists>u. wake_loop it s = Stop (Fault Null_pointer) u)"
proof (induction it)
  case (Cons e it)
  obtain u where "ask_thread (fst e) isUserBlocked s = Stop (Fault Null_pointer) u"
    using call_in_empty(2) [OF Cons.prems] by blast
  then show ?case using Cons by (auto simp: cond_apply bnd_apply)
qed (simp add: ret_apply)

lemma switch_in_empty:
  assumes "emptied s"
  shows "\<exists>u. doContextSwitch site s = Stop (Fault Null_pointer) u"
proof -
  let ?s = "s\<lparr>sigmask := insert SIGVTALRM (sigmask s)\<rparr>"
  have e: "emptied ?s" using assms by (simp add: emptied_def)
  obtain u where "on_thread (currentTid s) (saveEnv (Env_switch site (insert SIGVTALRM (sigmask s)))) ?s
      = Stop (Fault Null_pointer) u"
    using call_in_empty(1) [OF e] by blast
  then show ?thesis
    using assms by (simp add: doContextSwitch_def stmts_step cond_apply reads_apply ret_apply
        blockTimerSignal_ok emptied_def del: stmts.simps)
qed

lemma tick_in_empty:
  assumes "emptied s"
  shows "\<exists>u. tick s = Halts (Fault Null_pointer) u"
proof -
  let ?s = "s\<lparr>sigmask := insert SIGVTALRM (sigmask s)\<rparr>"
  have e: "emptied ?s" "emptied (?s\<lparr>sigmask := m\<rparr>)" "failing ?s = []" for m
    using assms by (simp_all add: emptied_def)
  have f: "failing s = []" using assms by (simp add: emptied_def)
  consider "wakeSleepingThreads ?s = Done () ?s"
    | u where "wakeSleepingThreads ?s = Stop (Fault Null_pointer) u"
    using wake_in_empty [OF e(1)] by (auto simp: wakeSleepingThreads_def reads_apply)
  then have "\<exists>u. timerHandler (sigmask s) ?s = Stop (Fault Null_pointer) u"
  proof cases
    case 1
    then show ?thesis
      using f switch_in_empty [OF e(2)]
      by (simp add: timerHandler_def stmts_step blockTimerSignal_ok unblockTimerSignal_ok
          del: stmts.simps(2))
  next
    case 2
    then show ?thesis
      using f by (simp add: timerHandler_def stmts_step blockTimerSignal_ok del: stmts.simps)
  qed
  then show ?thesis by (auto simp: tick_def bnd_Stop)
qed



end
