(* ===== verification/Spec2Isabelle.thy ===== *)
theory Spec2Isabelle
  imports Header Demos Examples Fairness Preemption Interleaving Signals
begin

text \<open>
  A verification of a library of user-level threads: \<open>uthreads.h\<close>, \<open>uthreads.cpp\<close>,
  \<open>scheduler.h\<close>, \<open>scheduler.cpp\<close>, \<open>thread.h\<close>, \<open>thread.cpp\<close>, with the programs that
  come with it.

  \<^bold>\<open>The program.\<close>  A process has one kernel thread, on which up to \<open>MAX_THREAD_NUM\<close> user threads take
  turns.  The class \<open>Scheduler\<close> keeps, in static members, a hash map from IDs to \<open>Thread\<close> objects,
  a queue of IDs that are ready, a map from sleeping IDs to deadlines, the running ID, the
  number of quanta so far, the length of a quantum, and an ID whose object is to be deleted.
  The timer signal SIGVTALRM ends a quantum: its handler wakes the threads whose deadlines have
  come and switches.  A switch saves the context of the running thread with \<open>sigsetjmp\<close> and jumps
  to the next with \<open>siglongjmp\<close>.  Calls are critical sections with the signal blocked.

  \<^bold>\<open>The model of the library.\<close>
  \<^item> \<open>Prelude\<close>: collections of rules, facts on lists and words, \<open>int\<close> arithmetic with overflow as
    \<open>None\<close> (\<open>add_int\<close>).
  \<^item> \<open>Containers\<close>: \<open>std::unordered_map\<close> as an association list in iteration order, \<open>std::queue\<close> as a
    list; their interfaces are locales, interpreted on these definitions.
  \<^item> \<open>Platform\<close>: signal sets and masks, \<open>itimerval\<close>, the pointer guard, saved contexts.
  \<^item> \<open>Thread\<close>: the record \<open>thread\<close> is the class of \<open>thread.h\<close>; \<open>Thread_construct\<close> and the accessors
    are those of \<open>thread.cpp\<close>; \<open>translate_address\<close> is its assembler code.
  \<^item> \<open>Process\<close>: the record \<open>machine\<close> is the static state of \<open>Scheduler\<close> with the memory and the signal
    state of the process.  A function is a state transformer \<open>'a act\<close> that ends normally, or stops
    the process: by \<open>exit\<close>, or by a fault, which is undefined behaviour (null or dangling pointer,
    double free, signed overflow, jump into an unset context).  A function that hands over the
    processor does not return; its \<open>control\<close> says where execution goes on.
  \<^item> \<open>Scheduler\<close>: every function of \<open>scheduler.cpp\<close> under its name (\<open>sched_init\<close> is \<open>init\<close>).
  \<^item> \<open>Uthreads\<close>: every function of \<open>uthreads.cpp\<close>.
  \<^item> \<open>Debug\<close>: \<open>debugPrintThreads\<close>.

  \<^bold>\<open>Lemmas on the library.\<close>
  \<^item> \<open>Exec\<close> and \<open>Eval\<close>: evaluation of the building blocks; \<open>Invariant\<close>: \<open>sched_inv\<close> and the closed form
    \<open>switch_to\<close> of a switch; \<open>Calls\<close>, \<open>Timer\<close>, \<open>Moves\<close>: closed forms of each call and of the tick.
  \<^item> \<open>System\<close>: the process as a transition system of calls, ticks and rehashings of the maps
    (\<open>lib_step\<close>); a call is \<open>allowed\<close> when the documentation permits it and when it is none of the
    uses that are shown to break the scheduler.  The locale \<open>safe_system\<close> carries the invariant
    to all reachable states.
  \<^item> \<open>Safety\<close>, \<open>Ticks\<close>, \<open>Accounting\<close>, \<open>Behaviour\<close>, \<open>Robustness\<close>, \<open>Departures\<close>: absence of faults,
    the scheduling order, counts of quanta, the result of each call on each branch, failing
    system calls, and what goes wrong outside \<open>allowed\<close> and in four documented uses.
  \<^item> \<open>Fairness\<close>: bounded waiting through arbitrary executions; the range of every number.
  \<^item> \<open>Pairs\<close>: the library with one thread or two, as a client that knows nothing else sees it.
  \<^item> \<open>Contract\<close>: the abstract scheduling policy \<open>p_step\<close>, without memory, contexts and signals, and
    the proof, through the locale \<open>refinement\<close>, that the library implements it.
  \<^item> \<open>Header\<close>: the comments of \<open>uthreads.h\<close> as predicates (\<open>doc_spawn\<close> and so on), and the exact
    set of calls for which the code keeps them.
  \<^item> \<open>Interrupts\<close>: \<open>terminate\<close>, \<open>block\<close>, \<open>resume\<close>, \<open>spawn\<close> and \<open>getQuantums\<close> cut into two parts where
    the timer signal is deliverable inside them, and the races between the parts.
  \<^item> \<open>Bystanders\<close>: every function is blind to the object of a thread that is not involved and not
    named (\<open>blind\<close>), proved along the statements of the code; \<open>Windows\<close>: by this an interruption in
    which nobody names the thread concerned is harmless for \<open>block\<close>, \<open>terminate\<close> and \<open>resume\<close>.
  \<^item> \<open>Interleaving\<close>: executions in which any number of calls are under way at once (\<open>fine_step\<close>); without
    interference they are simulated by executions of whole calls.
  \<^item> \<open>Signals\<close>: the handler interrupted by itself, and the signal at the end of \<open>terminate(0)\<close>.

  The timer signal gets through, apart from the moments before the first \<open>blockTimerSignal\<close> and
  after the last \<open>unblockTimerSignal\<close> of a call, at these points of \<open>scheduler.cpp\<close>:
  \<^item> \<open>timerHandler\<close>, before \<open>doContextSwitch\<close>: always safe (\<open>Signals\<close>);
  \<^item> \<open>terminate\<close> and \<open>block\<close>, behind \<open>removeFromReadyQueue\<close>: safe if the thread is not in the
    sleeping table and nobody names it (\<open>Interleaving\<close>), else there are races (\<open>Interrupts\<close>);
  \<^item> \<open>spawn\<close>, \<open>resume\<close> and \<open>getQuantums\<close>, between what they read and what they do with it: safe if it
    is still true (\<open>Interleaving\<close>), else there are races (\<open>Interrupts\<close>);
  \<^item> \<open>terminate(0)\<close>, before \<open>exit\<close>: always a crash (\<open>Signals\<close>).

  \<^bold>\<open>The programs.\<close>
  \<^item> \<open>Programs\<close>: a language of statements for clients, and their execution on the library, each
    thread with its locals, under a schedule that says when the timer expires.
  \<^item> \<open>Clients\<close>: \<open>main.cpp\<close>, \<open>test0_sanity.cpp\<close>, \<open>test2_two_thread.cpp\<close> and the programs of
    \<open>TomTests\<close>, with their output and exit status; \<open>Examples\<close>: the results for the first three.
  \<^item> \<open>Preemption\<close>: \<open>TomTests/test6.cpp\<close> ends under every schedule with non-empty quanta; proved over the
    properties of the library, with a weight that decreases in every quantum.
  \<^item> \<open>Drivers\<close>: \<open>TomTests/test5.cpp\<close> and \<open>test8.cpp\<close>, over a parameter for the shell.
  \<^item> \<open>Demos\<close>: \<open>demo_jmp.c\<close>, \<open>demo_itimer.c\<close> and \<open>demo_singInt_handler.c\<close>.
  \<^item> \<open>Samples\<close>: concrete reachable states for the witnesses.

  \<^bold>\<open>Bounds and fuel.\<close>  \<open>int\<close> is 32 bits wide; a step needs \<open>totalQuantums < INT_MAX\<close>, without which the
  increment overflows.  Loops of the library are structural or have a measure, so no fuel is
  used there.  A run of a client is as long as its schedule; the results hold for every longer
  schedule, so the lengths chosen in \<open>Clients\<close> only have to be large enough, which the results
  show.

  \<^bold>\<open>What the model leaves open.\<close>  The iteration order of the hash maps (a rehashing may permute it
  at any time), the addresses \<open>new\<close> returns (fresh ones), the pointer guard, the failure of
  \<open>sigprocmask\<close>, \<open>sigaction\<close>, \<open>setitimer\<close> and of \<open>new\<close>.

  \<^bold>\<open>Not modelled.\<close>  In the executions of \<open>System\<close> a call and a tick are atomic: a signal is
  delivered between statements of the client.  \<open>Interleaving\<close> has one interruption per call, at the
  points listed above; what \<open>block\<close> reads before its first \<open>blockTimerSignal\<close> is read together with
  what follows.  Not modelled are registers other than stack pointer and program counter, and the
  contents of stacks; the set of failing system calls does not change during an execution.  The
  files CMake generates, \<open>Makefile\<close> and \<open>CMakeLists.txt\<close> hold no logic of the program.
\<close>

end
